theory Spec2Isabelle
  imports Main "HOL-Library.Word"
begin

section \<open>Sentence records and identities\<close>

text \<open>
  Model of \<^verbatim>\<open>sentence-highlighter.js\<close>.  A JavaScript string is modelled as an
  Isabelle \<^typ>\<open>string\<close>: every character stands for one UTF-16 code unit below 256.
  Offsets, lengths and indices are natural numbers; a result that may be \<^verbatim>\<open>-1\<close> is an
  \<^typ>\<open>int\<close>.
\<close>

record sentence =
  sentence_id :: string
  sentence_text :: string
  sentence_start :: nat
  sentence_end :: nat
  isHeading :: bool

text \<open>\<^verbatim>\<open>Number.prototype.toString(radix)\<close> on a non-negative integer.\<close>

definition digit_char :: "nat \<Rightarrow> char" where
  "digit_char d = ''0123456789abcdefghijklmnopqrstuvwxyz'' ! d"

function toStringRadix :: "nat \<Rightarrow> nat \<Rightarrow> string" where
  "toStringRadix radix n =
     (if radix < 2 \<or> n < radix then [digit_char n]
      else toStringRadix radix (n div radix) @ [digit_char (n mod radix)])"
  by pat_completeness auto
termination
  by (relation "measure (\<lambda>(radix, n). n)") auto

declare toStringRadix.simps [simp del]

text \<open>
  \<^verbatim>\<open>simpleHash\<close>: \<^verbatim>\<open>hash = ((hash << 5) - hash) + char; hash = hash & hash\<close> keeps the
  hash a signed 32-bit integer, so each round is arithmetic modulo \<open>2^32\<close>; the result is
  \<^verbatim>\<open>Math.abs(hash).toString(36)\<close>.
\<close>

definition hash_step :: "32 word \<Rightarrow> char \<Rightarrow> 32 word" where
  "hash_step hash c = (push_bit 5 hash - hash) + of_char c"

definition simpleHash :: "string \<Rightarrow> string" where
  "simpleHash str = toStringRadix 36 (nat \<bar>sint (foldl hash_step 0 str)\<bar>)"

definition generateSentenceId :: "nat \<Rightarrow> nat \<Rightarrow> string \<Rightarrow> bool \<Rightarrow> string" where
  "generateSentenceId start end' tx heading =
     ''sentence-'' @
     simpleHash (toStringRadix 10 start @ ''-'' @ toStringRadix 10 end' @ ''-'' @ take 20 tx @ ''-'' @
                 (if heading then ''true'' else ''false''))"

section \<open>The tokenizer\<close>

text \<open>
  The characters that \<^verbatim>\<open>\s\<close> and \<^verbatim>\<open>String.prototype.trim\<close> treat as white space, among
  the code units below 256: TAB, LF, VT, FF, CR, SPACE and NO-BREAK SPACE.
\<close>

definition isWhiteSpace :: "char \<Rightarrow> bool" where
  "isWhiteSpace c = (c \<in> set [CHR 0x09, CHR 0x0A, CHR 0x0B, CHR 0x0C, CHR 0x0D, CHR 0x20, CHR 0xA0])"

definition trim :: "string \<Rightarrow> string" where
  "trim s = rev (dropWhile isWhiteSpace (rev (dropWhile isWhiteSpace s)))"

text \<open>
  The pattern built by \<^verbatim>\<open>buildSentenceMap\<close> is \<^verbatim>\<open>[^E]+[E]?\s*\<close>, where \<open>E\<close> lists the
  configured sentence endings, each a single character written into the class with a backslash
  before it.  \<open>match_here\<close> is the pattern for endings that stand for themselves when they are
  escaped (\<open>stands_for_itself\<close> below), as the default \<^verbatim>\<open>. ! ?\<close> do.  All three parts are greedy
  and the last two can match the empty string, so the pattern matches at a position exactly
  when the character there is not an ending: the match is the longest run of non-endings,
  then one ending if one follows, then the longest run of white space.
\<close>

definition match_here :: "char list \<Rightarrow> string \<Rightarrow> string option" where
  "match_here endings s =
     (let body = takeWhile (\<lambda>c. c \<notin> set endings) s;
          r1 = drop (length body) s;
          ending = (case r1 of [] \<Rightarrow> [] | c # _ \<Rightarrow> if c \<in> set endings then [c] else []);
          r2 = drop (length ending) r1;
          ws = takeWhile isWhiteSpace r2
      in if body = [] then None else Some (body @ ending @ ws))"

text \<open>
  \<^verbatim>\<open>regex.exec(text)\<close> of a global regular expression whose \<^verbatim>\<open>lastIndex\<close> is given: the
  first match at or after \<^verbatim>\<open>lastIndex\<close>, as its index and its text, or \<open>None\<close> for
  \<^verbatim>\<open>null\<close>.
\<close>

function regex_exec :: "char list \<Rightarrow> string \<Rightarrow> nat \<Rightarrow> (nat \<times> string) option" where
  "regex_exec endings tx lastIndex =
     (if length tx \<le> lastIndex then None
      else (case match_here endings (drop lastIndex tx) of
              Some chunk \<Rightarrow> Some (lastIndex, chunk)
            | None \<Rightarrow> regex_exec endings tx (lastIndex + 1)))"
  by pat_completeness auto
termination
  by (relation "measure (\<lambda>(endings, tx, lastIndex). length tx - lastIndex)") auto

declare regex_exec.simps [simp del]

definition mk_sentence :: "nat \<Rightarrow> nat \<Rightarrow> string \<Rightarrow> sentence" where
  "mk_sentence start end' chunk =
     \<lparr>sentence_id = generateSentenceId start end' chunk False, sentence_text = chunk,
      sentence_start = start, sentence_end = end', isHeading = False\<rparr>"

lemma match_here_Some:
  assumes "match_here endings s = Some chunk"
  shows "chunk \<noteq> [] \<and> length chunk \<le> length s"
proof -
  define body where "body = takeWhile (\<lambda>c. c \<notin> set endings) s"
  define r1 where "r1 = drop (length body) s"
  define ending where "ending = (case r1 of [] \<Rightarrow> [] | c # _ \<Rightarrow> if c \<in> set endings then [c] else [])"
  define ws where "ws = takeWhile isWhiteSpace (drop (length ending) r1)"
  from assms have ne: "body \<noteq> []" and ch: "chunk = body @ ending @ ws"
    by (auto simp: match_here_def Let_def body_def r1_def ending_def ws_def split: if_splits)
  have l1: "length body + length r1 = length s"
    by (simp add: r1_def body_def length_takeWhile_le)
  have l2: "length ending \<le> length r1"
    by (cases r1) (auto simp: ending_def)
  have l3: "length ws \<le> length r1 - length ending"
    using length_takeWhile_le [of isWhiteSpace "drop (length ending) r1"] by (simp add: ws_def)
  from ne ch l1 l2 l3 show ?thesis by auto
qed

lemma regex_exec_Some:
  "regex_exec endings tx i = Some (start, chunk) \<Longrightarrow>
     i \<le> start \<and> chunk \<noteq> [] \<and> start + length chunk \<le> length tx \<and>
     match_here endings (drop start tx) = Some chunk"
proof (induction endings tx i rule: regex_exec.induct)
  case (1 endings tx lastIndex)
  show ?case
  proof (cases "length tx \<le> lastIndex")
    case True
    with "1.prems" show ?thesis by (simp add: regex_exec.simps)
  next
    case False
    show ?thesis
    proof (cases "match_here endings (drop lastIndex tx)")
      case None
      with False "1.prems" have "regex_exec endings tx (lastIndex + 1) = Some (start, chunk)"
        by (simp add: regex_exec.simps [of endings tx lastIndex])
      from "1.IH" [OF False None this] show ?thesis by simp
    next
      case (Some m)
      with False "1.prems" have eq: "start = lastIndex" "chunk = m"
        by (simp_all add: regex_exec.simps [of endings tx lastIndex])
      from match_here_Some [OF Some] have "m \<noteq> []" "length m \<le> length tx - lastIndex"
        by simp_all
      with Some eq False show ?thesis by auto
    qed
  qed
qed

text \<open>
  The loop \<^verbatim>\<open>while ((match = regex.exec(text)) !== null)\<close>: its state is the array
  \<^verbatim>\<open>sentences\<close> and the variable \<^verbatim>\<open>lastIndex\<close>, which equals \<^verbatim>\<open>regex.lastIndex\<close> at the
  head of every round.
\<close>

function exec_loop :: "char list \<Rightarrow> string \<Rightarrow> sentence list \<Rightarrow> nat \<Rightarrow> sentence list \<times> nat" where
  "exec_loop endings tx sentences lastIndex =
     (case regex_exec endings tx lastIndex of
        None \<Rightarrow> (sentences, lastIndex)
      | Some (start, chunk) \<Rightarrow>
          exec_loop endings tx
            (sentences @ [mk_sentence start (start + length chunk) chunk])
            (start + length chunk))"
  by pat_completeness auto
termination
proof (relation "measure (\<lambda>(endings, tx, sentences, lastIndex). length tx - lastIndex)")
  show "wf (measure (\<lambda>(endings, tx, sentences, lastIndex). length tx - lastIndex))" by simp
next
  fix endings :: "char list" and tx :: string and sentences :: "sentence list"
    and lastIndex :: nat and x2 :: "nat \<times> string" and start :: nat and chunk :: string
  assume "regex_exec endings tx lastIndex = Some x2" and "(start, chunk) = x2"
  then have r: "regex_exec endings tx lastIndex = Some (start, chunk)" by simp
  have lt: "lastIndex < length tx"
    using r by (cases "length tx \<le> lastIndex") (simp_all add: regex_exec.simps)
  from regex_exec_Some [OF r] lt
  show "((endings, tx, sentences @ [mk_sentence start (start + length chunk) chunk], start + length chunk),
         (endings, tx, sentences, lastIndex))
        \<in> measure (\<lambda>(endings, tx, sentences, lastIndex). length tx - lastIndex)"
    by (cases chunk) auto
qed

declare exec_loop.simps [simp del]

definition buildSentenceMap :: "char list \<Rightarrow> string \<Rightarrow> sentence list" where
  "buildSentenceMap endings tx =
     (if trim tx = [] then []
      else
        let (sentences, lastIndex) = exec_loop endings tx [] 0;
            sentences1 =
              (if lastIndex < length tx then
                 (let remaining = drop lastIndex tx
                  in if 0 < length (trim remaining)
                     then sentences @ [mk_sentence lastIndex (length tx) remaining]
                     else sentences)
               else sentences);
            sentences2 =
              (if length sentences1 = 0 \<and> 0 < length (trim tx)
               then sentences1 @ [mk_sentence 0 (length tx) tx]
               else sentences1)
        in sentences2)"

definition default_sentenceEndings :: "char list" where
  "default_sentenceEndings = [CHR ''.'', CHR ''!'', CHR ''?'']"

text \<open>
  The source writes each ending \<open>e\<close> into the character class as \<^verbatim>\<open>'\\' + e\<close>.  Escaped, the
  letters \<^verbatim>\<open>b c d D f n r s S t v w W\<close> and the digits \<^verbatim>\<open>0\<close> to \<^verbatim>\<open>7\<close> denote a control
  character, a class of characters or an octal code; every other character denotes itself.
\<close>

definition stands_for_itself :: "char \<Rightarrow> bool" where
  "stands_for_itself c = (c \<notin> set ''bcdDfnrsStvwW01234567'')"

section \<open>The active sentence\<close>

text \<open>
  The \<^verbatim>\<open>for\<close> loop of \<^verbatim>\<open>findActiveSentenceIndex\<close>, at index \<open>i\<close> with the sentences from
  \<open>i\<close> on: \<^verbatim>\<open>i < sentences.length - 1\<close> holds exactly when a sentence follows.
\<close>

fun find_loop :: "sentence list \<Rightarrow> nat \<Rightarrow> nat \<Rightarrow> nat option" where
  "find_loop [] i caretOffset = None"
| "find_loop (s # rest) i caretOffset =
     (if sentence_start s \<le> caretOffset \<and> caretOffset < sentence_end s then Some i
      else if caretOffset = sentence_end s \<and> rest \<noteq> [] then Some (i + 1)
      else find_loop rest (i + 1) caretOffset)"

definition findActiveSentenceIndex :: "sentence list \<Rightarrow> nat \<Rightarrow> int" where
  "findActiveSentenceIndex sentences caretOffset =
     (case find_loop sentences 0 caretOffset of
        Some i \<Rightarrow> int i
      | None \<Rightarrow>
          if 0 < length sentences \<and> sentence_start (last sentences) \<le> caretOffset
          then int (length sentences) - 1
          else - 1)"


section \<open>Predicates on sentence sequences and texts\<close>

text \<open>
  \<open>ordered_from lo\<close>: every span is non-empty, the first starts at \<open>lo\<close> or later, and each
  starts at or after the end of the one before it.
\<close>

fun ordered_from :: "nat \<Rightarrow> sentence list \<Rightarrow> bool" where
  "ordered_from lo [] = True"
| "ordered_from lo (s # rest) =
     (lo \<le> sentence_start s \<and> sentence_start s < sentence_end s \<and> ordered_from (sentence_end s) rest)"

definition ordered_sentences :: "sentence list \<Rightarrow> bool" where
  "ordered_sentences sentences = ordered_from 0 sentences"

text \<open>
  A stray ending is an ending character that starts the text, or follows another ending with
  only white space between them, and has a character that is not an ending somewhere after it.
  \<open>endings_apart\<close> reads the text from left to right; its flag says that the last character
  that is not white space was an ending.
\<close>

fun endings_apart :: "char list \<Rightarrow> bool \<Rightarrow> string \<Rightarrow> bool" where
  "endings_apart endings after [] = True"
| "endings_apart endings after (c # cs) =
     (if c \<in> set endings
      then (if after then list_all (\<lambda>d. d \<in> set endings) cs else endings_apart endings True cs)
      else endings_apart endings (after \<and> isWhiteSpace c) cs)"

definition no_stray_ending :: "char list \<Rightarrow> string \<Rightarrow> bool" where
  "no_stray_ending endings tx =
     (case tx of
        [] \<Rightarrow> True
      | c # cs \<Rightarrow> if c \<in> set endings then list_all (\<lambda>d. d \<in> set endings) cs
                 else endings_apart endings False cs)"

text \<open>The sentences tile the text from \<open>lo\<close> on: each starts where the one before it ends.\<close>

fun contiguous_from :: "nat \<Rightarrow> sentence list \<Rightarrow> bool" where
  "contiguous_from lo [] = True"
| "contiguous_from lo (s # rest) =
     (sentence_start s = lo \<and> lo < sentence_end s \<and> contiguous_from (sentence_end s) rest)"

text \<open>
  \<open>slice\<close> is \<^verbatim>\<open>text.substring(a, b)\<close> for \<open>a \<le> b\<close>; \<open>last_end lo\<close> is the end of the last
  sentence, or \<open>lo\<close> when there is none; \<open>within\<close> says that a sentence lies inside the text and
  that its text is the characters of its span.
\<close>

definition slice :: "string \<Rightarrow> nat \<Rightarrow> nat \<Rightarrow> string" where
  "slice tx a b = take (b - a) (drop a tx)"

definition last_end :: "nat \<Rightarrow> sentence list \<Rightarrow> nat" where
  "last_end lo ss = (if ss = [] then lo else sentence_end (last ss))"

definition within :: "string \<Rightarrow> sentence \<Rightarrow> bool" where
  "within tx s = (sentence_end s \<le> length tx \<and>
     sentence_text s = slice tx (sentence_start s) (sentence_end s))"

section \<open>The editing surface\<close>

text \<open>
  The content of the editor element is a tree of text nodes and elements.  An element carries
  a reference (its identity as a JavaScript object), its tag name, its class tokens, its other
  attributes in the order they were set, and its children.  The attribute named by
  \<^verbatim>\<open>sentenceDataAttribute\<close> is assumed not to be \<^verbatim>\<open>class\<close>.
\<close>

datatype node =
  TextNode string
| ElementNode nat string "string list" "(string \<times> string) list" "node list"

fun textContent :: "node \<Rightarrow> string" where
  "textContent (TextNode t) = t"
| "textContent (ElementNode r tag classes attrs children) = concat (map textContent children)"

text \<open>
  The length of \<^verbatim>\<open>innerHTML\<close> enters the content hash.  The serialisation escapes
  \<^verbatim>\<open>&\<close>, \<^verbatim>\<open><\<close>, \<^verbatim>\<open>>\<close> and the no-break space in text, and \<^verbatim>\<open>&\<close>, the double quote and the
  no-break space in attribute values; void elements have no end tag.  The class attribute is
  written first and only when there is a class token: this changes no length that the
  highlighter produces.
\<close>

definition escape_text :: "string \<Rightarrow> string" where
  "escape_text t = concat (map (\<lambda>c.
     if c = CHR ''&'' then ''&amp;'' else if c = CHR ''<'' then ''&lt;''
     else if c = CHR ''>'' then ''&gt;'' else if c = CHR 0xA0 then ''&nbsp;'' else [c]) t)"

definition escape_attr :: "string \<Rightarrow> string" where
  "escape_attr t = concat (map (\<lambda>c.
     if c = CHR ''&'' then ''&amp;'' else if c = CHR 0x22 then ''&quot;''
     else if c = CHR 0xA0 then ''&nbsp;'' else [c]) t)"

definition void_elements :: "string list" where
  "void_elements = [''area'', ''base'', ''br'', ''col'', ''embed'', ''hr'', ''img'', ''input'',
     ''link'', ''meta'', ''source'', ''track'', ''wbr'']"

fun join_tokens :: "string list \<Rightarrow> string" where
  "join_tokens [] = []"
| "join_tokens [t] = t"
| "join_tokens (t # ts) = t @ '' '' @ join_tokens ts"

definition serialize_attr :: "string \<times> string \<Rightarrow> string" where
  "serialize_attr kv = '' '' @ fst kv @ [CHR ''='', CHR 0x22] @ escape_attr (snd kv) @ [CHR 0x22]"

fun outerHTML :: "node \<Rightarrow> string" where
  "outerHTML (TextNode t) = escape_text t"
| "outerHTML (ElementNode r tag classes attrs children) =
     ''<'' @ tag @
     (if classes = [] then [] else serialize_attr (''class'', join_tokens classes)) @
     concat (map serialize_attr attrs) @ ''>'' @
     (if tag \<in> set void_elements then []
      else concat (map outerHTML children) @ ''</'' @ tag @ ''>'')"

definition innerHTML :: "node list \<Rightarrow> string" where
  "innerHTML children = concat (map outerHTML children)"

definition hasAttribute :: "string \<Rightarrow> (string \<times> string) list \<Rightarrow> bool" where
  "hasAttribute name attrs = (name \<in> set (map fst attrs))"

text \<open>\<^verbatim>\<open>querySelectorAll('[name]')\<close>: the descendants that carry the attribute, in document order.\<close>

fun querySelectorAll_attr :: "string \<Rightarrow> node \<Rightarrow> nat list" where
  "querySelectorAll_attr name (TextNode t) = []"
| "querySelectorAll_attr name (ElementNode r tag classes attrs children) =
     (if hasAttribute name attrs then [r] else []) @
     concat (map (querySelectorAll_attr name) children)"

text \<open>
  The first loop of \<^verbatim>\<open>clearAllHighlights\<close>: every element with the attribute whose parent is
  not the editor is replaced by its children.  The elements are visited in document order, so
  when an element is reached its parent is the editor exactly when it is a child of the editor
  in the original tree.
\<close>

fun unwrap :: "string \<Rightarrow> node \<Rightarrow> node list" where
  "unwrap name (TextNode t) = [TextNode t]"
| "unwrap name (ElementNode r tag classes attrs children) =
     (if hasAttribute name attrs then concat (map (unwrap name) children)
      else [ElementNode r tag classes attrs (concat (map (unwrap name) children))])"

fun unwrap_child :: "string \<Rightarrow> node \<Rightarrow> node" where
  "unwrap_child name (TextNode t) = TextNode t"
| "unwrap_child name (ElementNode r tag classes attrs children) =
     ElementNode r tag classes attrs (concat (map (unwrap name) children))"

text \<open>\<^verbatim>\<open>querySelector('.cls')\<close>: the first descendant, in document order, with the class token.\<close>

fun find_first :: "('a \<Rightarrow> 'b option) \<Rightarrow> 'a list \<Rightarrow> 'b option" where
  "find_first f [] = None"
| "find_first f (x # xs) = (case f x of Some y \<Rightarrow> Some y | None \<Rightarrow> find_first f xs)"

lemma find_first_cong [fundef_cong]:
  "xs = ys \<Longrightarrow> (\<And>x. x \<in> set ys \<Longrightarrow> f x = g x) \<Longrightarrow> find_first f xs = find_first g ys"
  by (induction ys arbitrary: xs) (auto split: option.splits)

fun querySelector_class :: "string \<Rightarrow> node \<Rightarrow> node option" where
  "querySelector_class cls (TextNode t) = None"
| "querySelector_class cls (ElementNode r tag classes attrs children) =
     (if cls \<in> set classes then Some (ElementNode r tag classes attrs children)
      else find_first (querySelector_class cls) children)"

definition isElement :: "node \<Rightarrow> bool" where
  "isElement n = (case n of TextNode t \<Rightarrow> False | ElementNode r tag classes attrs children \<Rightarrow> True)"

definition node_ref :: "node \<Rightarrow> nat option" where
  "node_ref n = (case n of TextNode t \<Rightarrow> None | ElementNode r tag classes attrs children \<Rightarrow> Some r)"

definition node_children :: "node \<Rightarrow> node list" where
  "node_children n = (case n of TextNode t \<Rightarrow> [] | ElementNode r tag classes attrs children \<Rightarrow> children)"

text \<open>A change made through a reference to an element reaches the element wherever it is in the tree.\<close>

fun update_element :: "nat \<Rightarrow> (string list \<Rightarrow> string list) \<Rightarrow>
    ((string \<times> string) list \<Rightarrow> (string \<times> string) list) \<Rightarrow> node \<Rightarrow> node" where
  "update_element ref f g (TextNode t) = TextNode t"
| "update_element ref f g (ElementNode r tag classes attrs children) =
     (if r = ref then ElementNode r tag (f classes) (g attrs) (map (update_element ref f g) children)
      else ElementNode r tag classes attrs (map (update_element ref f g) children))"

definition classList_add :: "string \<Rightarrow> string list \<Rightarrow> string list" where
  "classList_add cls classes = (if cls \<in> set classes then classes else classes @ [cls])"

definition classList_remove :: "string \<Rightarrow> string list \<Rightarrow> string list" where
  "classList_remove cls classes = filter (\<lambda>c. c \<noteq> cls) classes"

definition setAttribute :: "string \<Rightarrow> string \<Rightarrow> (string \<times> string) list \<Rightarrow> (string \<times> string) list" where
  "setAttribute name v attrs =
     (if hasAttribute name attrs then map (\<lambda>kv. if fst kv = name then (name, v) else kv) attrs
      else attrs @ [(name, v)])"

definition removeAttribute :: "string \<Rightarrow> (string \<times> string) list \<Rightarrow> (string \<times> string) list" where
  "removeAttribute name attrs = filter (\<lambda>kv. fst kv \<noteq> name) attrs"

section \<open>The highlighter instance\<close>

record options =
  sentenceDataAttribute :: string
  activeSentenceDataAttribute :: string
  containerClass :: string
  sentenceClass :: string
  activeSentenceClass :: string
  enableFocusMode :: bool
  autoScroll :: bool
  sentenceEndings :: "char list"
  updateDebounce :: nat
  updateThrottle :: nat
  onSentenceChange :: bool
  onActiveSentenceChange :: bool

text \<open>
  The two callbacks are observers: the options say whether one is installed, and every call is
  appended to the trace \<open>callbacks\<close> of the instance.  The defaults of the constructor:
\<close>

definition default_options :: options where
  "default_options =
     \<lparr>sentenceDataAttribute = ''data-sentence-id'',
      activeSentenceDataAttribute = ''data-sentence-active'',
      containerClass = ''paragraph'', sentenceClass = ''sentence'',
      activeSentenceClass = ''sentence--active'',
      enableFocusMode = True, autoScroll = True,
      sentenceEndings = default_sentenceEndings,
      updateDebounce = 100, updateThrottle = 50,
      onSentenceChange = False, onActiveSentenceChange = False\<rparr>"

datatype js_error = TypeError string | NotFoundError string | Error string

datatype 'a completion = Return 'a | Throw js_error

datatype js_value = Undefined | Boolean bool

datatype task = ScanAndHighlight | UpdateActiveSentence

datatype event_target = Editor | Document

text \<open>
  The functions registered as listeners: the three bound methods, and the three arrow
  functions that \<^verbatim>\<open>attachEvents\<close> creates for \<^verbatim>\<open>keydown\<close>, \<^verbatim>\<open>keyup\<close> and \<^verbatim>\<open>focus\<close>.
\<close>

datatype listener =
  HandleInput | HandleNavigation | HandleCaretMove | KeydownArrow | KeyupArrow | FocusArrow

datatype callback_call =
  SentenceChange "sentence list"
| ActiveSentenceChange int "sentence option"

text \<open>A class or attribute change made on a rendered region, that is on an element of \<^verbatim>\<open>sentenceElements\<close>.\<close>

datatype region_mutation =
  ClassListAdd nat string
| ClassListRemove nat string
| SetAttribute nat string string
| RemoveAttribute nat string

text \<open>
  The fields of the instance, then the part of the browser it acts on: the class tokens and
  the children of the editor element, the caret as \<^verbatim>\<open>getCaretOffset\<close> measures it, whether the
  anchor of the selection is inside the editor, the registered listeners, the pending timeouts
  (identifier, delay, task), the pending animation-frame requests (each a call of
  \<^verbatim>\<open>setCaretOffset\<close>), and the counters for fresh timer identifiers and element references.
  Last come the two traces.  \<^verbatim>\<open>sentenceMap\<close> and \<^verbatim>\<open>sentenceElements\<close> are JavaScript maps: lists
  of entries in insertion order.
\<close>

record highlighter =
  opts :: options
  sentenceMap :: "(string \<times> sentence) list"
  sentenceElements :: "(string \<times> nat) list"
  activeSentenceId :: "string option"
  isInitialized :: bool
  updateTimer :: "nat option"
  lastContentHash :: "string option"
  focusModeEnabled :: bool
  editor_classList :: "string list"
  editor_childNodes :: "node list"
  caretOffset :: nat
  selectionInEditor :: bool
  listeners :: "(event_target \<times> string \<times> listener) list"
  timers :: "(nat \<times> nat \<times> task) list"
  animationFrames :: "nat list"
  next_timer :: nat
  next_ref :: nat
  callbacks :: "callback_call list"
  region_mutations :: "region_mutation list"

text \<open>\<^verbatim>\<open>Map.prototype.set\<close> and \<^verbatim>\<open>get\<close>: a key that is present keeps its place.\<close>

definition map_set :: "('k \<times> 'v) list \<Rightarrow> 'k \<Rightarrow> 'v \<Rightarrow> ('k \<times> 'v) list" where
  "map_set m k v =
     (if k \<in> set (map fst m) then map (\<lambda>kv. if fst kv = k then (k, v) else kv) m
      else m @ [(k, v)])"

definition map_get :: "('k \<times> 'v) list \<Rightarrow> 'k \<Rightarrow> 'v option" where
  "map_get m k = map_of m k"

section \<open>The methods\<close>

definition setTimeout :: "task \<Rightarrow> nat \<Rightarrow> highlighter \<Rightarrow> nat \<times> highlighter" where
  "setTimeout task delay s =
     (next_timer s,
      s\<lparr>timers := timers s @ [(next_timer s, delay, task)], next_timer := next_timer s + 1\<rparr>)"

definition clearTimeout :: "nat option \<Rightarrow> highlighter \<Rightarrow> highlighter" where
  "clearTimeout timer s =
     (case timer of
        None \<Rightarrow> s
      | Some i \<Rightarrow> s\<lparr>timers := filter (\<lambda>t. fst t \<noteq> i) (timers s)\<rparr>)"

text \<open>
  \<^verbatim>\<open>addEventListener\<close> ignores a listener that is already registered for the target and type;
  \<^verbatim>\<open>removeEventListener\<close> removes the listener it is given and no other.
\<close>

definition addEventListener ::
    "event_target \<Rightarrow> string \<Rightarrow> listener \<Rightarrow> highlighter \<Rightarrow> highlighter" where
  "addEventListener target type l s =
     (if (target, type, l) \<in> set (listeners s) then s
      else s\<lparr>listeners := listeners s @ [(target, type, l)]\<rparr>)"

definition removeEventListener ::
    "event_target \<Rightarrow> string \<Rightarrow> listener \<Rightarrow> highlighter \<Rightarrow> highlighter" where
  "removeEventListener target type l s =
     s\<lparr>listeners := filter (\<lambda>e. e \<noteq> (target, type, l)) (listeners s)\<rparr>"

text \<open>
  \<^verbatim>\<open>getPlainText\<close> is \<^verbatim>\<open>textContent || innerText || ''\<close>.  When \<^verbatim>\<open>textContent\<close> is empty the
  editor holds no text, and \<^verbatim>\<open>innerText\<close> then holds at most line breaks and tabs: the model
  takes the empty string, which is blank as well.
\<close>

definition getPlainText :: "highlighter \<Rightarrow> string" where
  "getPlainText s = concat (map textContent (editor_childNodes s))"

definition getContentHash :: "highlighter \<Rightarrow> string" where
  "getContentHash s =
     toStringRadix 10 (length (getPlainText s)) @ ''-'' @
     toStringRadix 10 (length (innerHTML (editor_childNodes s)))"

definition getCaretOffset :: "highlighter \<Rightarrow> nat" where
  "getCaretOffset s = caretOffset s"

text \<open>\<^verbatim>\<open>setCaretOffset\<close> puts the caret into the editor, at the end of the content when the target is past it.\<close>

definition setCaretOffset :: "nat \<Rightarrow> highlighter \<Rightarrow> highlighter" where
  "setCaretOffset targetOffset s =
     s\<lparr>caretOffset := min targetOffset (length (getPlainText s)), selectionInEditor := True\<rparr>"

text \<open>
  \<^verbatim>\<open>scrollCaretToCenter\<close> inserts a marker at the caret, scrolls to it and removes it again,
  inside \<^verbatim>\<open>try ... catch\<close>: it changes no text, no element and no field of the instance.
\<close>

definition scrollCaretToCenter :: "highlighter \<Rightarrow> highlighter" where
  "scrollCaretToCenter s = s"

definition hasValidHighlights :: "highlighter \<Rightarrow> bool" where
  "hasValidHighlights s =
     (0 < length (sentenceElements s) \<and>
      0 < length (concat (map (querySelectorAll_attr (sentenceDataAttribute (opts s)))
                     (editor_childNodes s))))"

text \<open>
  \<^verbatim>\<open>clearAllHighlights\<close>.  After the sentence elements are unwrapped, the first descendant with
  the container class, when it has no element child, is replaced by its children:
  \<^verbatim>\<open>this.editor.insertBefore(..., container)\<close> and \<^verbatim>\<open>this.editor.removeChild(container)\<close> raise a
  \<^verbatim>\<open>NotFoundError\<close> when that descendant is not a child of the editor itself.
\<close>

definition splice_container :: "nat \<Rightarrow> node list \<Rightarrow> node list" where
  "splice_container ref children =
     concat (map (\<lambda>n. if node_ref n = Some ref then node_children n else [n]) children)"

definition clearAllHighlights :: "highlighter \<Rightarrow> unit completion \<times> highlighter" where
  "clearAllHighlights s =
     (let s1 = s\<lparr>editor_childNodes :=
                  map (unwrap_child (sentenceDataAttribute (opts s))) (editor_childNodes s)\<rparr>
      in case find_first (querySelector_class (containerClass (opts s1))) (editor_childNodes s1) of
           None \<Rightarrow> (Return (), s1\<lparr>sentenceElements := []\<rparr>)
         | Some (TextNode t) \<Rightarrow> (Return (), s1\<lparr>sentenceElements := []\<rparr>)
         | Some (ElementNode r tag classes attrs children) \<Rightarrow>
             if list_ex isElement children
             then (Return (), s1\<lparr>sentenceElements := []\<rparr>)
             else if Some r \<in> set (map node_ref (editor_childNodes s1))
             then (Return (),
                   s1\<lparr>editor_childNodes := splice_container r (editor_childNodes s1),
                      sentenceElements := []\<rparr>)
             else (Throw (NotFoundError ''The node is not a child of this node''), s1))"

text \<open>
  \<^verbatim>\<open>rebuildHighlights\<close>: one new \<^verbatim>\<open>span\<close> per sentence, with reference \<open>base + 1 + i\<close> for the
  sentence at index \<open>i\<close>, in a new container \<^verbatim>\<open>div\<close> with reference \<open>base\<close>, which replaces the
  content of the editor.  \<open>rebuild_step\<close> is one round of the \<^verbatim>\<open>forEach\<close>.  Replacing the
  content moves a caret that was inside the editor to the start of the editor, where
  \<^verbatim>\<open>getCaretOffset\<close> measures 0; the caret is restored in an animation frame.
\<close>

definition rebuild_step ::
    "int \<Rightarrow> nat \<Rightarrow> node list \<times> highlighter \<Rightarrow> nat \<times> sentence \<Rightarrow> node list \<times> highlighter" where
  "rebuild_step activeIndex base acc p =
     (let spans = fst acc; s = snd acc; i = fst p; sentence = snd p;
          active = (int i = activeIndex \<and> 0 \<le> activeIndex);
          attrs0 = setAttribute (sentenceDataAttribute (opts s)) (sentence_id sentence) [];
          classes0 = [sentenceClass (opts s)];
          classes1 = (if active then classList_add (activeSentenceClass (opts s)) classes0 else classes0);
          attrs1 = (if active then setAttribute (activeSentenceDataAttribute (opts s)) ''true'' attrs0
                    else attrs0);
          s1 = (if active then s\<lparr>activeSentenceId := Some (sentence_id sentence)\<rparr> else s);
          classes2 = (if isHeading sentence then classList_add ''sentence-highlighter-heading'' classes1
                      else classes1);
          span = ElementNode (base + 1 + i) ''span'' classes2 attrs1
                   (if sentence_text sentence = [] then [] else [TextNode (sentence_text sentence)])
      in (spans @ [span],
          s1\<lparr>sentenceElements := map_set (sentenceElements s1) (sentence_id sentence) (base + 1 + i)\<rparr>))"

definition rebuildHighlights ::
    "sentence list \<Rightarrow> int \<Rightarrow> nat \<Rightarrow> highlighter \<Rightarrow> unit completion \<times> highlighter" where
  "rebuildHighlights sentences activeIndex caret s =
     (if length sentences = 0 then clearAllHighlights s
      else
        let s0 = s\<lparr>sentenceElements := []\<rparr>;
            base = next_ref s0;
            built = foldl (rebuild_step activeIndex base) ([], s0) (enumerate 0 sentences);
            container = ElementNode base ''div'' [containerClass (opts s)] [] (fst built)
        in (Return (),
            (snd built)\<lparr>editor_childNodes := [container],
                        caretOffset := (if selectionInEditor s then 0 else caretOffset s),
                        next_ref := base + 1 + length sentences,
                        animationFrames := animationFrames s @ [caret]\<rparr>))"

text \<open>Taking the active marker off a rendered region, and putting it on.\<close>

definition unmark_active :: "nat \<Rightarrow> highlighter \<Rightarrow> highlighter" where
  "unmark_active element s =
     s\<lparr>editor_childNodes :=
         map (update_element element (classList_remove (activeSentenceClass (opts s)))
                (removeAttribute (activeSentenceDataAttribute (opts s)))) (editor_childNodes s),
       region_mutations := region_mutations s @
         [ClassListRemove element (activeSentenceClass (opts s)),
          RemoveAttribute element (activeSentenceDataAttribute (opts s))]\<rparr>"

definition mark_active :: "nat \<Rightarrow> highlighter \<Rightarrow> highlighter" where
  "mark_active element s =
     s\<lparr>editor_childNodes :=
         map (update_element element (classList_add (activeSentenceClass (opts s)))
                (setAttribute (activeSentenceDataAttribute (opts s)) ''true'')) (editor_childNodes s),
       region_mutations := region_mutations s @
         [ClassListAdd element (activeSentenceClass (opts s)),
          SetAttribute element (activeSentenceDataAttribute (opts s)) ''true'']\<rparr>"

text \<open>
  The part that \<^verbatim>\<open>updateActiveSentenceFromMap\<close> and \<^verbatim>\<open>updateActiveSentence\<close> share, written out
  in both in the source: the marker is taken off the element of the old active sentence, the
  new identifier is stored, the marker is put on its element, and the observer is called.
\<close>

definition move_active :: "string \<Rightarrow> int \<Rightarrow> highlighter \<Rightarrow> highlighter" where
  "move_active newActiveId activeIndex s =
     (let s1 = (case activeSentenceId s of
                  None \<Rightarrow> s
                | Some old \<Rightarrow>
                    if old = [] then s
                    else (case map_get (sentenceElements s) old of
                            None \<Rightarrow> s
                          | Some oldElement \<Rightarrow> unmark_active oldElement s));
          s2 = s1\<lparr>activeSentenceId := Some newActiveId\<rparr>;
          s3 = (case map_get (sentenceElements s2) newActiveId of
                  None \<Rightarrow> s2
                | Some newElement \<Rightarrow> mark_active newElement s2)
      in if onActiveSentenceChange (opts s3)
         then s3\<lparr>callbacks := callbacks s3 @
                   [ActiveSentenceChange activeIndex (map_get (sentenceMap s3) newActiveId)]\<rparr>
         else s3)"

definition updateActiveSentenceFromMap :: "sentence list \<Rightarrow> int \<Rightarrow> highlighter \<Rightarrow> highlighter" where
  "updateActiveSentenceFromMap sentences activeIndex s =
     (if activeIndex < 0 \<or> int (length sentences) \<le> activeIndex then s
      else move_active (sentence_id (sentences ! nat activeIndex)) activeIndex s)"

definition updateActiveSentence :: "highlighter \<Rightarrow> highlighter" where
  "updateActiveSentence s =
     (if length (sentenceMap s) = 0 then s
      else
        let caret = getCaretOffset s;
            sentences = map snd (sentenceMap s);
            activeIndex = findActiveSentenceIndex sentences caret
        in if activeIndex < 0 then s
           else
             let newActiveId = sentence_id (sentences ! nat activeIndex)
             in if Some newActiveId = activeSentenceId s then s
                else
                  let s1 = move_active newActiveId activeIndex s
                  in if autoScroll (opts s1) then scrollCaretToCenter s1 else s1)"

text \<open>
  \<^verbatim>\<open>scanAndHighlight\<close>.  \<^verbatim>\<open>this.sentenceElements\<close> is a map from the constructor on, so the
  tests \<^verbatim>\<open>!this.sentenceElements\<close> of the source are false.
\<close>

definition scanAndHighlight :: "highlighter \<Rightarrow> unit completion \<times> highlighter" where
  "scanAndHighlight s =
     (let tx = getPlainText s; isEmpty = (trim tx = [])
      in if isEmpty then
           (case clearAllHighlights s of
              (Throw e, s1) \<Rightarrow> (Throw e, s1)
            | (Return u, s1) \<Rightarrow>
                (Return (),
                 s1\<lparr>sentenceMap := [], sentenceElements := [], activeSentenceId := None,
                    lastContentHash := Some []\<rparr>))
         else
           let contentHash = getContentHash s;
               caret = getCaretOffset s;
               newSentences = buildSentenceMap (sentenceEndings (opts s)) (getPlainText s)
           in if length newSentences = 0 then (Return (), s)
              else
                let activeIndex = findActiveSentenceIndex newSentences caret;
                    needsRebuild =
                      (if Some contentHash = lastContentHash s
                       then (length (sentenceElements s) = 0 \<or> \<not> hasValidHighlights s)
                       else True);
                    r = (if needsRebuild then
                           (case rebuildHighlights newSentences activeIndex caret s of
                              (Throw e, s1) \<Rightarrow> (Throw e, s1)
                            | (Return u, s1) \<Rightarrow> (Return (), s1\<lparr>lastContentHash := Some contentHash\<rparr>))
                         else (Return (), updateActiveSentenceFromMap newSentences activeIndex s))
                in case r of
                     (Throw e, s1) \<Rightarrow> (Throw e, s1)
                   | (Return u, s1) \<Rightarrow>
                       let s2 = s1\<lparr>sentenceMap :=
                                   foldl (\<lambda>m x. map_set m (sentence_id x) x) [] newSentences\<rparr>;
                           s3 = (if onSentenceChange (opts s2)
                                 then s2\<lparr>callbacks := callbacks s2 @
                                           [SentenceChange (map snd (sentenceMap s2))]\<rparr>
                                 else s2)
                       in (Return (), if autoScroll (opts s3) then scrollCaretToCenter s3 else s3))"

text \<open>The listeners.  Each one cancels the pending timeout of the instance and sets a new one.\<close>

definition handleInput :: "highlighter \<Rightarrow> highlighter" where
  "handleInput s =
     (let tx = getPlainText s;
          caret = getCaretOffset s;
          shouldUpdateImmediately =
            (1 < caret \<and> caret - 2 < length tx \<and> tx ! (caret - 2) \<in> set (sentenceEndings (opts s)));
          s1 = clearTimeout (updateTimer s) s;
          delay = (if shouldUpdateImmediately then 10 else updateDebounce (opts s));
          t = setTimeout ScanAndHighlight delay s1
      in (snd t)\<lparr>updateTimer := Some (fst t)\<rparr>)"

definition handleNavigation :: "highlighter \<Rightarrow> highlighter" where
  "handleNavigation s =
     (let s1 = clearTimeout (updateTimer s) s;
          t = setTimeout UpdateActiveSentence (updateThrottle (opts s)) s1
      in (snd t)\<lparr>updateTimer := Some (fst t)\<rparr>)"

definition handleCaretMove :: "highlighter \<Rightarrow> highlighter" where
  "handleCaretMove s =
     (if selectionInEditor s then
        (let s1 = clearTimeout (updateTimer s) s;
             t = setTimeout UpdateActiveSentence (updateThrottle (opts s)) s1
         in (snd t)\<lparr>updateTimer := Some (fst t)\<rparr>)
      else s)"

definition keydown_listener :: "string \<Rightarrow> highlighter \<Rightarrow> highlighter" where
  "keydown_listener key s =
     (if key \<in> set (map (\<lambda>c. [c]) (sentenceEndings (opts s))) then
        (let s1 = clearTimeout (updateTimer s) s;
             t = setTimeout ScanAndHighlight 20 s1
         in (snd t)\<lparr>updateTimer := Some (fst t)\<rparr>)
      else s)"

definition navigationKeys :: "string list" where
  "navigationKeys = [''ArrowLeft'', ''ArrowRight'', ''ArrowUp'', ''ArrowDown'',
     ''Home'', ''End'', ''PageUp'', ''PageDown'']"

definition keyup_listener :: "string \<Rightarrow> highlighter \<Rightarrow> highlighter" where
  "keyup_listener key s = (if key \<in> set navigationKeys then handleNavigation s else s)"

definition attachEvents :: "highlighter \<Rightarrow> highlighter" where
  "attachEvents s =
     (let s1 = addEventListener Editor ''input'' HandleInput s;
          s2 = addEventListener Editor ''keydown'' KeydownArrow s1;
          s3 = addEventListener Editor ''click'' HandleNavigation s2;
          s4 = addEventListener Editor ''keyup'' KeyupArrow s3;
          s5 = addEventListener Document ''selectionchange'' HandleCaretMove s4
      in addEventListener Editor ''focus'' FocusArrow s5)"

text \<open>
  \<^verbatim>\<open>init\<close>.  The style sheet that \<^verbatim>\<open>injectCSS\<close> adds to the head of the document is outside
  the modelled state.  The timeout of the first scan is not stored in \<^verbatim>\<open>updateTimer\<close>.
\<close>

definition init :: "highlighter \<Rightarrow> highlighter" where
  "init s =
     (if isInitialized s then s
      else
        let s1 = s\<lparr>editor_classList := classList_add (containerClass (opts s)) (editor_classList s)\<rparr>;
            s2 = (if focusModeEnabled s1 then s1
                  else s1\<lparr>editor_classList :=
                            classList_add ''sentence-highlighter-focus-off'' (editor_classList s1)\<rparr>);
            s3 = attachEvents s2;
            t = setTimeout ScanAndHighlight 10 s3
        in (snd t)\<lparr>isInitialized := True\<rparr>)"

text \<open>
  The constructor.  Its argument is no element, an element that is not editable, or an
  editable element with its class tokens and children; the references of new elements start
  at \<open>first_ref\<close>, which is above the reference of every element of the given content.
\<close>

datatype editor_argument =
  NoElement
| NotContentEditable
| ContentEditable "string list" "node list"

definition SentenceHighlighter ::
    "editor_argument \<Rightarrow> options \<Rightarrow> nat \<Rightarrow> js_error + highlighter" where
  "SentenceHighlighter editorElement options first_ref =
     (case editorElement of
        NoElement \<Rightarrow> Inl (Error ''SentenceHighlighter: Valid editor element is required'')
      | NotContentEditable \<Rightarrow> Inl (Error ''SentenceHighlighter: Element must be contenteditable'')
      | ContentEditable classes children \<Rightarrow>
          Inr (init
            \<lparr>opts = options, sentenceMap = [], sentenceElements = [], activeSentenceId = None,
             isInitialized = False, updateTimer = None, lastContentHash = None,
             focusModeEnabled = enableFocusMode options,
             editor_classList = classes, editor_childNodes = children,
             caretOffset = 0, selectionInEditor = False,
             listeners = [], timers = [], animationFrames = [],
             next_timer = 1, next_ref = first_ref,
             callbacks = [], region_mutations = []\<rparr>))"

definition setFocusMode :: "bool \<Rightarrow> highlighter \<Rightarrow> highlighter" where
  "setFocusMode enabled s =
     (let s1 = s\<lparr>focusModeEnabled := enabled\<rparr>
      in if enabled
         then s1\<lparr>editor_classList :=
                   classList_remove ''sentence-highlighter-focus-off'' (editor_classList s1)\<rparr>
         else s1\<lparr>editor_classList :=
                   classList_add ''sentence-highlighter-focus-off'' (editor_classList s1)\<rparr>)"

text \<open>
  \<^verbatim>\<open>toggleFocusMode\<close> is \<^verbatim>\<open>{ this.setFocusMode(!this.focusModeEnabled); }\<close>: its body has no
  \<^verbatim>\<open>return\<close>, so a call evaluates to \<^verbatim>\<open>undefined\<close>.
\<close>

definition toggleFocusMode :: "highlighter \<Rightarrow> js_value \<times> highlighter" where
  "toggleFocusMode s = (Undefined, setFocusMode (\<not> focusModeEnabled s) s)"

definition getSentences :: "highlighter \<Rightarrow> sentence list" where
  "getSentences s = map snd (sentenceMap s)"

definition getActiveSentence :: "highlighter \<Rightarrow> sentence option" where
  "getActiveSentence s =
     (case activeSentenceId s of
        None \<Rightarrow> None
      | Some i \<Rightarrow> if i = [] then None else map_get (sentenceMap s) i)"

fun indexOf :: "'a list \<Rightarrow> 'a \<Rightarrow> int" where
  "indexOf [] x = - 1"
| "indexOf (y # ys) x = (if y = x then 0 else (let r = indexOf ys x in if r < 0 then r else r + 1))"

definition getActiveSentenceIndex :: "highlighter \<Rightarrow> int" where
  "getActiveSentenceIndex s =
     (case activeSentenceId s of
        None \<Rightarrow> - 1
      | Some i \<Rightarrow> if i = [] then - 1 else indexOf (map fst (sentenceMap s)) i)"

definition findActiveSentenceId :: "nat \<Rightarrow> highlighter \<Rightarrow> string option" where
  "findActiveSentenceId caret s =
     (let sentences = map snd (sentenceMap s);
          activeIndex = findActiveSentenceIndex sentences caret
      in if 0 \<le> activeIndex \<and> activeIndex < int (length sentences)
         then Some (sentence_id (sentences ! nat activeIndex))
         else None)"

definition update :: "highlighter \<Rightarrow> unit completion \<times> highlighter" where
  "update s = scanAndHighlight s"

text \<open>
  \<^verbatim>\<open>destroy\<close>.  The loop \<^verbatim>\<open>for (const id of this.sentenceMap.keys())\<close> calls
  \<^verbatim>\<open>this.removeSentenceHighlight(id)\<close>.  The class defines no method of that name (its methods
  are listed in \<open>class_methods\<close>) and nothing assigns one to the instance, so the first round of
  the loop raises a \<^verbatim>\<open>TypeError\<close>; the loop has no round when the map is empty.
\<close>

definition class_methods :: "string list" where
  "class_methods = [''constructor'', ''init'', ''injectCSS'', ''attachEvents'', ''handleInput'',
     ''handleNavigation'', ''handleCaretMove'', ''generateSentenceId'', ''simpleHash'',
     ''getCaretOffset'', ''setCaretOffset'', ''buildSentenceMap'', ''getPlainText'',
     ''getContentHash'', ''findActiveSentenceId'', ''scanAndHighlight'',
     ''findActiveSentenceIndex'', ''hasValidHighlights'', ''clearAllHighlights'',
     ''rebuildHighlights'', ''updateActiveSentenceFromMap'', ''updateActiveSentence'',
     ''scrollCaretToCenter'', ''setFocusMode'', ''toggleFocusMode'', ''getSentences'',
     ''getActiveSentence'', ''getActiveSentenceIndex'', ''update'', ''destroy'']"

definition destroy :: "highlighter \<Rightarrow> unit completion \<times> highlighter" where
  "destroy s =
     (let s1 = clearTimeout (updateTimer s) s;
          s2 = removeEventListener Editor ''input'' HandleInput s1;
          s3 = removeEventListener Editor ''click'' HandleNavigation s2;
          s4 = removeEventListener Document ''selectionchange'' HandleCaretMove s3
      in if 0 < length (sentenceMap s4) \<and> ''removeSentenceHighlight'' \<notin> set class_methods
         then (Throw (TypeError ''this.removeSentenceHighlight is not a function''), s4)
         else (Return (),
               s4\<lparr>sentenceMap := [], sentenceElements := [], activeSentenceId := None,
                  editor_classList :=
                    classList_remove ''sentence-highlighter-focus-off''
                      (classList_remove (containerClass (opts s4)) (editor_classList s4)),
                  isInitialized := False\<rparr>))"

section \<open>Events and timers\<close>

text \<open>
  The browser delivers an event to the listeners registered for its target and type, in the
  order of registration; \<open>key\<close> is the \<^verbatim>\<open>key\<close> of a keyboard event.
\<close>

fun run_listener :: "listener \<Rightarrow> string \<Rightarrow> highlighter \<Rightarrow> highlighter" where
  "run_listener HandleInput key s = handleInput s"
| "run_listener HandleNavigation key s = handleNavigation s"
| "run_listener HandleCaretMove key s = handleCaretMove s"
| "run_listener KeydownArrow key s = keydown_listener key s"
| "run_listener KeyupArrow key s = keyup_listener key s"
| "run_listener FocusArrow key s = handleNavigation s"

definition dispatchEvent :: "event_target \<Rightarrow> string \<Rightarrow> string \<Rightarrow> highlighter \<Rightarrow> highlighter" where
  "dispatchEvent target type key s =
     foldl (\<lambda>s' l. run_listener l key s') s
       (map (\<lambda>e. snd (snd e)) (filter (\<lambda>e. fst e = target \<and> fst (snd e) = type) (listeners s)))"

text \<open>A pending timeout that comes due is taken off the list and its task runs.\<close>

fun run_task :: "task \<Rightarrow> highlighter \<Rightarrow> unit completion \<times> highlighter" where
  "run_task ScanAndHighlight s = scanAndHighlight s"
| "run_task UpdateActiveSentence s = (Return (), updateActiveSentence s)"

definition fire_timer :: "nat \<Rightarrow> highlighter \<Rightarrow> unit completion \<times> highlighter" where
  "fire_timer i s =
     (case find (\<lambda>t. fst t = i) (timers s) of
        None \<Rightarrow> (Return (), s)
      | Some t \<Rightarrow> run_task (snd (snd t)) (s\<lparr>timers := filter (\<lambda>t. fst t \<noteq> i) (timers s)\<rparr>))"

definition run_animationFrame :: "highlighter \<Rightarrow> highlighter" where
  "run_animationFrame s =
     (case animationFrames s of
        [] \<Rightarrow> s
      | target # rest \<Rightarrow> setCaretOffset target (s\<lparr>animationFrames := rest\<rparr>))"

section \<open>An example run\<close>

text \<open>
  An editor that holds the text \<^verbatim>\<open>Hi.\<close> in one text node, and a highlighter with both
  observers installed.  \<open>demo_created\<close> is the instance as the constructor leaves it,
  \<open>demo_rendered\<close> after the first scan (the timeout set by \<^verbatim>\<open>init\<close>), \<open>demo_updated\<close> after a
  call of \<^verbatim>\<open>update()\<close>, and \<open>demo_updated_again\<close> after a second call.
\<close>

definition demo_options :: options where
  "demo_options = default_options\<lparr>onSentenceChange := True, onActiveSentenceChange := True\<rparr>"

definition demo_sentence :: sentence where
  "demo_sentence = \<lparr>sentence_id = ''sentence-dd8ss4'', sentence_text = ''Hi.'',
     sentence_start = 0, sentence_end = 3, isHeading = False\<rparr>"

definition demo_created :: highlighter where
  "demo_created =
     \<lparr>opts = demo_options, sentenceMap = [], sentenceElements = [], activeSentenceId = None,
      isInitialized = True, updateTimer = None, lastContentHash = None,
      focusModeEnabled = True,
      editor_classList = [''paragraph''], editor_childNodes = [TextNode ''Hi.''],
      caretOffset = 0, selectionInEditor = False,
      listeners =
        [(Editor, ''input'', HandleInput), (Editor, ''keydown'', KeydownArrow),
         (Editor, ''click'', HandleNavigation), (Editor, ''keyup'', KeyupArrow),
         (Document, ''selectionchange'', HandleCaretMove), (Editor, ''focus'', FocusArrow)],
      timers = [(1, 10, ScanAndHighlight)], animationFrames = [],
      next_timer = 2, next_ref = 1, callbacks = [], region_mutations = []\<rparr>"

definition demo_span :: "nat \<Rightarrow> node" where
  "demo_span r =
     ElementNode r ''span'' [''sentence'', ''sentence--active'']
       [(''data-sentence-id'', ''sentence-dd8ss4''), (''data-sentence-active'', ''true'')]
       [TextNode ''Hi.'']"

definition demo_rendered :: highlighter where
  "demo_rendered =
     demo_created
       \<lparr>sentenceMap := [(''sentence-dd8ss4'', demo_sentence)],
        sentenceElements := [(''sentence-dd8ss4'', 2)],
        activeSentenceId := Some ''sentence-dd8ss4'',
        lastContentHash := Some ''3-3'',
        editor_childNodes := [ElementNode 1 ''div'' [''paragraph''] [] [demo_span 2]],
        timers := [], animationFrames := [0], next_ref := 3,
        callbacks := [SentenceChange [demo_sentence]]\<rparr>"

definition demo_updated :: highlighter where
  "demo_updated =
     demo_rendered
       \<lparr>sentenceElements := [(''sentence-dd8ss4'', 4)],
        lastContentHash := Some ''3-142'',
        editor_childNodes := [ElementNode 3 ''div'' [''paragraph''] [] [demo_span 4]],
        animationFrames := [0, 0], next_ref := 5,
        callbacks := [SentenceChange [demo_sentence], SentenceChange [demo_sentence]]\<rparr>"

definition demo_updated_again :: highlighter where
  "demo_updated_again =
     demo_updated
       \<lparr>callbacks :=
          [SentenceChange [demo_sentence], SentenceChange [demo_sentence],
           ActiveSentenceChange 0 (Some demo_sentence), SentenceChange [demo_sentence]],
        region_mutations :=
          [ClassListRemove 4 ''sentence--active'', RemoveAttribute 4 ''data-sentence-active'',
           ClassListAdd 4 ''sentence--active'', SetAttribute 4 ''data-sentence-active'' ''true'']\<rparr>"

text \<open>
  \<open>demo_destroyed\<close> is \<open>demo_created\<close> after \<^verbatim>\<open>destroy()\<close>.  \<open>demo_cleared\<close> and \<open>demo_blanked\<close> are
  \<open>demo_updated\<close> after the author has deleted the text, leaving the editor empty or leaving one
  space in the sentence element.
\<close>

definition demo_destroyed :: highlighter where
  "demo_destroyed =
     demo_created
       \<lparr>isInitialized := False, editor_classList := [],
        listeners :=
          [(Editor, ''keydown'', KeydownArrow), (Editor, ''keyup'', KeyupArrow),
           (Editor, ''focus'', FocusArrow)]\<rparr>"

definition demo_cleared :: highlighter where
  "demo_cleared = demo_updated\<lparr>editor_childNodes := []\<rparr>"

definition demo_blanked :: highlighter where
  "demo_blanked =
     demo_updated
       \<lparr>editor_childNodes :=
          [ElementNode 3 ''div'' [''paragraph''] []
             [ElementNode 4 ''span'' [''sentence'', ''sentence--active'']
                [(''data-sentence-id'', ''sentence-dd8ss4''), (''data-sentence-active'', ''true'')]
                [TextNode '' '']]],
        caretOffset := 1, selectionInEditor := True\<rparr>"

section \<open>Properties of the active-sentence search\<close>

lemma ordered_from_start:
  "ordered_from lo ss \<Longrightarrow> j < length ss \<Longrightarrow>
     lo \<le> sentence_start (ss ! j) \<and> sentence_start (ss ! j) < sentence_end (ss ! j)"
proof (induction ss arbitrary: lo j)
  case Nil
  then show ?case by simp
next
  case (Cons s rest)
  show ?case
  proof (cases j)
    case 0
    with Cons.prems show ?thesis by simp
  next
    case (Suc k)
    with Cons.prems have "ordered_from (sentence_end s) rest" "k < length rest" by simp_all
    from Cons.IH [OF this] Cons.prems Suc show ?thesis by simp
  qed
qed

lemma ordered_from_last:
  "ordered_from lo ss \<Longrightarrow> ss \<noteq> [] \<Longrightarrow> j < length ss \<Longrightarrow>
     sentence_start (ss ! j) \<le> sentence_start (last ss) \<and>
     (j + 1 < length ss \<longrightarrow> sentence_end (ss ! j) \<le> sentence_start (last ss))"
proof (induction ss arbitrary: lo j)
  case Nil
  then show ?case by simp
next
  case (Cons s rest)
  show ?case
  proof (cases rest)
    case Nil
    with Cons.prems show ?thesis by simp
  next
    case (Cons t r)
    have o: "ordered_from (sentence_end s) rest" using Cons.prems by simp
    have ne: "rest \<noteq> []" using Cons by simp
    have l: "last (s # rest) = last rest" using ne by simp
    show ?thesis
    proof (cases j)
      case 0
      have "length rest - 1 < length rest" using ne by simp
      from ordered_from_start [OF o this] have "sentence_end s \<le> sentence_start (last rest)"
        using ne by (simp add: last_conv_nth)
      with Cons.prems 0 l show ?thesis by simp
    next
      case (Suc k)
      with Cons.prems have "k < length rest" by simp
      from Cons.IH [OF o ne this] Suc l show ?thesis by simp
    qed
  qed
qed

lemma find_loop_inside:
  "ordered_from lo ss \<Longrightarrow> j < length ss \<Longrightarrow> sentence_start (ss ! j) \<le> c \<Longrightarrow>
     c < sentence_end (ss ! j) \<Longrightarrow> find_loop ss k c = Some (k + j)"
proof (induction ss arbitrary: lo j k)
  case Nil
  then show ?case by simp
next
  case (Cons s rest)
  show ?case
  proof (cases j)
    case 0
    with Cons.prems show ?thesis by simp
  next
    case (Suc i)
    have o: "ordered_from (sentence_end s) rest" using Cons.prems by simp
    have i: "i < length rest" using Cons.prems Suc by simp
    have span: "sentence_start (rest ! i) \<le> c" "c < sentence_end (rest ! i)"
      using Cons.prems Suc by simp_all
    from ordered_from_start [OF o i] span have ge: "sentence_end s \<le> c" by simp
    show ?thesis
    proof (cases "c = sentence_end s")
      case True
      have "i = 0"
      proof (rule ccontr)
        assume "i \<noteq> 0"
        then have z: "0 < length rest" "0 + 1 < length rest \<or> i = 0" using i by auto
        have "rest \<noteq> []" using i by auto
        from ordered_from_start [OF o z(1)] have a: "sentence_end s \<le> sentence_start (rest ! 0)"
          "sentence_start (rest ! 0) < sentence_end (rest ! 0)" by simp_all
        obtain t r where r: "rest = t # r" using \<open>rest \<noteq> []\<close> by (cases rest) auto
        with o have o2: "ordered_from (sentence_end t) r" by simp
        from \<open>i \<noteq> 0\<close> obtain i' where i': "i = Suc i'" by (cases i) auto
        with i r have "i' < length r" by simp
        from ordered_from_start [OF o2 this] have "sentence_end t \<le> sentence_start (r ! i')" by simp
        with r i' span a True show False by simp
      qed
      with True Cons.prems Suc i show ?thesis by auto
    next
      case False
      with ge have gt: "sentence_end s < c" by simp
      from Cons.IH [OF o i span, of "k + 1"] gt Suc show ?thesis by simp
    qed
  qed
qed

lemma find_loop_at_end:
  "ordered_from lo ss \<Longrightarrow> j + 1 < length ss \<Longrightarrow> c = sentence_end (ss ! j) \<Longrightarrow>
     find_loop ss k c = Some (k + j + 1)"
proof (induction ss arbitrary: lo j k)
  case Nil
  then show ?case by simp
next
  case (Cons s rest)
  show ?case
  proof (cases j)
    case 0
    with Cons.prems show ?thesis by auto
  next
    case (Suc i)
    have o: "ordered_from (sentence_end s) rest" using Cons.prems by simp
    have i: "i + 1 < length rest" using Cons.prems Suc by simp
    then have i0: "i < length rest" by simp
    have c: "c = sentence_end (rest ! i)" using Cons.prems Suc by simp
    from ordered_from_start [OF o i0] c have gt: "sentence_end s < c" by simp
    from Cons.IH [OF o i c, of "k + 1"] gt Suc show ?thesis by simp
  qed
qed

lemma find_loop_last:
  "ordered_from lo ss \<Longrightarrow> ss \<noteq> [] \<Longrightarrow> sentence_start (last ss) \<le> c \<Longrightarrow>
     find_loop ss k c = None \<or> find_loop ss k c = Some (k + length ss - 1)"
proof (induction ss arbitrary: lo k)
  case Nil
  then show ?case by simp
next
  case (Cons s rest)
  show ?case
  proof (cases rest)
    case Nil
    then show ?thesis by simp
  next
    case (Cons t r)
    have o: "ordered_from (sentence_end s) rest" using Cons.prems by simp
    have ne: "rest \<noteq> []" using Cons by simp
    have l: "sentence_start (last rest) \<le> c" using Cons.prems ne by simp
    have z: "0 < length (s # rest)" by simp
    from ordered_from_last [OF Cons.prems(1) _ z] ne l
    have ge: "sentence_end s \<le> c" by simp
    show ?thesis
    proof (cases "c = sentence_end s")
      case True
      have "r = []"
      proof (rule ccontr)
        assume "r \<noteq> []"
        then have "0 + 1 < length rest" using Cons by simp
        moreover have "0 < length rest" using ne by simp
        ultimately have "sentence_end (rest ! 0) \<le> sentence_start (last rest)"
          using ordered_from_last [OF o ne, of 0] by simp
        moreover have "sentence_end s \<le> sentence_start (rest ! 0)"
          "sentence_start (rest ! 0) < sentence_end (rest ! 0)"
          using ordered_from_start [OF o \<open>0 < length rest\<close>] by simp_all
        ultimately show False using True l by simp
      qed
      with True Cons ne show ?thesis by simp
    next
      case False
      with ge have "sentence_end s < c" by simp
      with Cons.IH [OF o ne l, of "k + 1"] ne show ?thesis by auto
    qed
  qed
qed

lemma find_inside:
  assumes "ordered_sentences ss" "j < length ss" "sentence_start (ss ! j) \<le> c" "c < sentence_end (ss ! j)"
  shows "findActiveSentenceIndex ss c = int j"
  using find_loop_inside [of 0 ss j c 0] assms
  by (simp add: findActiveSentenceIndex_def ordered_sentences_def)

lemma find_at_end:
  assumes "ordered_sentences ss" "j + 1 < length ss" "c = sentence_end (ss ! j)"
  shows "findActiveSentenceIndex ss c = int (j + 1)"
  using find_loop_at_end [of 0 ss j c 0] assms
  by (simp add: findActiveSentenceIndex_def ordered_sentences_def)

lemma find_last:
  assumes "ordered_sentences ss" "ss \<noteq> []" "sentence_start (last ss) \<le> c"
  shows "findActiveSentenceIndex ss c = int (length ss) - 1"
proof -
  have "int (length ss - 1) = int (length ss) - 1" using assms(2) by (cases ss) simp_all
  with find_loop_last [of 0 ss c 0] assms show ?thesis
    by (auto simp: findActiveSentenceIndex_def ordered_sentences_def)
qed

section \<open>Properties of the tokenizer\<close>

lemma exec_loop_invariant:
  assumes "I acc i"
    and "\<And>acc i start chunk. I acc i \<Longrightarrow> regex_exec endings tx i = Some (start, chunk) \<Longrightarrow>
           I (acc @ [mk_sentence start (start + length chunk) chunk]) (start + length chunk)"
  shows "I (fst (exec_loop endings tx acc i)) (snd (exec_loop endings tx acc i)) \<and>
         regex_exec endings tx (snd (exec_loop endings tx acc i)) = None"
  using assms
proof (induction endings tx acc i rule: exec_loop.induct)
  case (1 endings tx sentences lastIndex)
  note init = "1.prems"(1) and step = "1.prems"(2)
  show ?case
  proof (cases "regex_exec endings tx lastIndex")
    case None
    with init show ?thesis by (simp add: exec_loop.simps [of endings tx sentences lastIndex])
  next
    case (Some p)
    obtain start chunk where p: "p = (start, chunk)" by (cases p)
    have next_ok: "I (sentences @ [mk_sentence start (start + length chunk) chunk]) (start + length chunk)"
      using step [OF init] Some p by simp
    from "1.IH" [OF Some p [symmetric] next_ok step] Some p show ?thesis
      by (simp add: exec_loop.simps [of endings tx sentences lastIndex])
  qed
qed

lemma match_here_cases:
  assumes "match_here endings s = Some chunk"
  shows "(chunk = s \<and> s \<noteq> [] \<and> list_all (\<lambda>c. c \<notin> set endings) s) \<or>
         (\<exists>body c r2. s = body @ c # r2 \<and> body \<noteq> [] \<and> list_all (\<lambda>c. c \<notin> set endings) body \<and>
             c \<in> set endings \<and> chunk = body @ c # takeWhile isWhiteSpace r2)"
proof -
  define body where "body = takeWhile (\<lambda>c. c \<notin> set endings) s"
  define r1 where "r1 = drop (length body) s"
  define ending where
    "ending = (case r1 of [] \<Rightarrow> [] | c # _ \<Rightarrow> if c \<in> set endings then [c] else [])"
  define ws where "ws = takeWhile isWhiteSpace (drop (length ending) r1)"
  have m: "match_here endings s = (if body = [] then None else Some (body @ ending @ ws))"
    by (simp add: match_here_def Let_def body_def r1_def ending_def ws_def)
  have r1: "r1 = dropWhile (\<lambda>c. c \<notin> set endings) s"
    by (simp add: r1_def body_def dropWhile_eq_drop)
  have s: "s = body @ r1" by (simp add: r1 body_def)
  have all: "list_all (\<lambda>c. c \<notin> set endings) body"
    by (auto simp: body_def list_all_iff dest: set_takeWhileD)
  from assms m have ne: "body \<noteq> []" and ch: "chunk = body @ ending @ ws"
    by (auto split: if_splits)
  show ?thesis
  proof (cases r1)
    case Nil
    then have "ending = []" "ws = []" by (simp_all add: ending_def ws_def)
    with ch s Nil ne all show ?thesis by simp
  next
    case (Cons c r2)
    have "dropWhile (\<lambda>c. c \<notin> set endings) s \<noteq> []" using Cons r1 by simp
    from hd_dropWhile [OF this] have c: "c \<in> set endings" using Cons r1 by simp
    with Cons have "ending = [c]" "ws = takeWhile isWhiteSpace r2"
      by (simp_all add: ending_def ws_def)
    with ch have "chunk = body @ c # takeWhile isWhiteSpace r2" by simp
    with s Cons ne all c show ?thesis by blast
  qed
qed

lemma match_here_prefix:
  assumes "match_here endings s = Some chunk"
  shows "take (length chunk) s = chunk"
  using match_here_cases [OF assms]
proof (elim disjE exE conjE)
  assume "chunk = s"
  then show ?thesis by simp
next
  fix body c r2
  assume s: "s = body @ c # r2" and ch: "chunk = body @ c # takeWhile isWhiteSpace r2"
  have "take (length (takeWhile isWhiteSpace r2)) r2 = takeWhile isWhiteSpace r2"
    by (metis takeWhile_eq_take)
  with s ch show ?thesis by simp
qed

lemma match_here_rest:
  assumes "match_here endings s = Some chunk"
  shows "drop (length chunk) s = [] \<or> \<not> isWhiteSpace (hd (drop (length chunk) s))"
  using match_here_cases [OF assms]
proof (elim disjE exE conjE)
  assume "chunk = s"
  then show ?thesis by simp
next
  fix body c r2
  assume s: "s = body @ c # r2" and ch: "chunk = body @ c # takeWhile isWhiteSpace r2"
  have "drop (length chunk) s = dropWhile isWhiteSpace r2"
    using s ch by (simp add: dropWhile_eq_drop)
  then show ?thesis using hd_dropWhile [of isWhiteSpace r2] by auto
qed

lemma match_here_None: "match_here endings s = None \<longleftrightarrow> s = [] \<or> hd s \<in> set endings"
  by (cases s) (auto simp: match_here_def Let_def)

lemma regex_exec_here:
  "i < length tx \<Longrightarrow> match_here endings (drop i tx) = Some chunk \<Longrightarrow>
     regex_exec endings tx i = Some (i, chunk)"
  by (simp add: regex_exec.simps [of endings tx i])

lemma regex_exec_all_endings:
  "list_all (\<lambda>c. c \<in> set endings) (drop i tx) \<Longrightarrow> regex_exec endings tx i = None"
proof (induction endings tx i rule: regex_exec.induct)
  case (1 endings tx lastIndex)
  show ?case
  proof (cases "length tx \<le> lastIndex")
    case True
    then show ?thesis by (simp add: regex_exec.simps)
  next
    case False
    then have d: "drop lastIndex tx = tx ! lastIndex # drop (Suc lastIndex) tx"
      by (simp add: Cons_nth_drop_Suc)
    with "1.prems" have h: "tx ! lastIndex \<in> set endings"
      and rest: "list_all (\<lambda>c. c \<in> set endings) (drop (lastIndex + 1) tx)" by simp_all
    from d h have n: "match_here endings (drop lastIndex tx) = None"
      by (simp add: match_here_None)
    from "1.IH" [OF False n rest] False n show ?thesis
      by (simp add: regex_exec.simps [of endings tx lastIndex])
  qed
qed

lemma regex_exec_None_here:
  "regex_exec endings tx i = None \<Longrightarrow> i < length tx \<Longrightarrow> tx ! i \<in> set endings"
proof -
  assume n: "regex_exec endings tx i = None" and i: "i < length tx"
  then have "match_here endings (drop i tx) = None"
    by (auto simp: regex_exec.simps [of endings tx i] split: option.splits)
  moreover have "drop i tx = tx ! i # drop (Suc i) tx" using i by (simp add: Cons_nth_drop_Suc)
  ultimately show ?thesis by (simp add: match_here_None)
qed

lemma ordered_from_snoc:
  "ordered_from lo (ss @ [s]) \<longleftrightarrow>
     ordered_from lo ss \<and> last_end lo ss \<le> sentence_start s \<and> sentence_start s < sentence_end s"
  by (induction ss arbitrary: lo) (auto simp: last_end_def)

lemma mk_sentence_sel [simp]:
  "sentence_text (mk_sentence a b chunk) = chunk"
  "sentence_start (mk_sentence a b chunk) = a"
  "sentence_end (mk_sentence a b chunk) = b"
  "isHeading (mk_sentence a b chunk) = False"
  by (simp_all add: mk_sentence_def)

lemma exec_loop_ordered:
  "ordered_from 0 (fst (exec_loop endings tx [] 0)) \<and>
   list_all (within tx) (fst (exec_loop endings tx [] 0)) \<and>
   snd (exec_loop endings tx [] 0) = last_end 0 (fst (exec_loop endings tx [] 0)) \<and>
   snd (exec_loop endings tx [] 0) \<le> length tx"
proof -
  define I where "I = (\<lambda>acc k. ordered_from 0 acc \<and> list_all (within tx) acc \<and>
     k = last_end 0 acc \<and> k \<le> length tx)"
  have "I (fst (exec_loop endings tx [] 0)) (snd (exec_loop endings tx [] 0)) \<and>
        regex_exec endings tx (snd (exec_loop endings tx [] 0)) = None"
  proof (rule exec_loop_invariant [where I = I])
    show "I [] 0" by (simp add: I_def last_end_def)
  next
    fix acc i start chunk
    assume inv: "I acc i" and r: "regex_exec endings tx i = Some (start, chunk)"
    from regex_exec_Some [OF r] have f: "i \<le> start" "chunk \<noteq> []"
      "start + length chunk \<le> length tx" "match_here endings (drop start tx) = Some chunk"
      by simp_all
    from match_here_prefix [OF f(4)] have "slice tx start (start + length chunk) = chunk"
      by (simp add: slice_def)
    with inv f show "I (acc @ [mk_sentence start (start + length chunk) chunk]) (start + length chunk)"
      by (simp add: I_def ordered_from_snoc within_def last_end_def)
  qed
  then show ?thesis by (simp add: I_def)
qed

lemma trim_nonempty: "trim s \<noteq> [] \<Longrightarrow> s \<noteq> []"
  by (auto simp: trim_def)

lemma trim_hd: "s \<noteq> [] \<Longrightarrow> \<not> isWhiteSpace (hd s) \<Longrightarrow> trim s \<noteq> []"
  by (cases s) (auto simp: trim_def dropWhile_append)

lemma buildSentenceMap_ordered:
  "ordered_sentences (buildSentenceMap endings tx) \<and>
   list_all (within tx) (buildSentenceMap endings tx)"
proof (cases "trim tx = []")
  case True
  then show ?thesis by (simp add: buildSentenceMap_def ordered_sentences_def)
next
  case False
  obtain ss li where e: "exec_loop endings tx [] 0 = (ss, li)" by (cases "exec_loop endings tx [] 0")
  from exec_loop_ordered [of endings tx] e
  have o: "ordered_from 0 ss" and w: "list_all (within tx) ss" and li: "li = last_end 0 ss"
    and le: "li \<le> length tx" by simp_all
  define s1 where "s1 = (if li < length tx \<and> 0 < length (trim (drop li tx))
     then ss @ [mk_sentence li (length tx) (drop li tx)] else ss)"
  define s2 where "s2 = (if length s1 = 0 \<and> 0 < length (trim tx)
     then s1 @ [mk_sentence 0 (length tx) tx] else s1)"
  have b: "buildSentenceMap endings tx = s2"
    using False e by (auto simp: buildSentenceMap_def Let_def s1_def s2_def)
  have o1: "ordered_from 0 s1 \<and> list_all (within tx) s1"
    using o w li by (simp add: s1_def ordered_from_snoc within_def slice_def)
  have "tx \<noteq> []" using False trim_nonempty by blast
  then have o2: "ordered_from 0 s2 \<and> list_all (within tx) s2"
    using o1 by (simp add: s2_def within_def slice_def)
  with b show ?thesis by (simp add: ordered_sentences_def)
qed

lemma endings_apart_skip:
  "list_all (\<lambda>c. c \<notin> set endings) xs \<Longrightarrow>
     endings_apart endings False (xs @ ys) = endings_apart endings False ys"
  by (induction xs) simp_all

lemma no_stray_all_endings:
  "list_all (\<lambda>c. c \<in> set endings) xs \<Longrightarrow> no_stray_ending endings xs"
  by (cases xs) (simp_all add: no_stray_ending_def)

lemma no_stray_after_ws:
  "endings_apart endings True r \<Longrightarrow> no_stray_ending endings (dropWhile isWhiteSpace r)"
proof (induction r)
  case Nil
  then show ?case by (simp add: no_stray_ending_def)
next
  case (Cons d ds)
  show ?case
  proof (cases "isWhiteSpace d")
    case True
    show ?thesis
    proof (cases "d \<in> set endings")
      case e: True
      with Cons.prems have "list_all (\<lambda>c. c \<in> set endings) ds" by simp
      then have "list_all (\<lambda>c. c \<in> set endings) (dropWhile isWhiteSpace ds)"
        by (auto simp: list_all_iff dest: set_dropWhileD)
      from no_stray_all_endings [OF this] True show ?thesis by simp
    next
      case False
      with Cons.prems True have "endings_apart endings True ds" by simp
      from Cons.IH [OF this] True show ?thesis by simp
    qed
  next
    case False
    with Cons.prems show ?thesis by (auto simp: no_stray_ending_def split: if_splits)
  qed
qed

lemma no_stray_step:
  assumes ns: "no_stray_ending endings s" and m: "match_here endings s = Some chunk"
  shows "no_stray_ending endings (drop (length chunk) s)"
proof -
  from m have ne: "s \<noteq> []" and h: "hd s \<notin> set endings"
    using match_here_None [of endings s] by auto
  then obtain a as where s: "s = a # as" by (cases s) auto
  with ns h have ap: "endings_apart endings False s" by (simp add: no_stray_ending_def)
  from match_here_cases [OF m] show ?thesis
  proof (elim disjE exE conjE)
    assume "chunk = s"
    then show ?thesis by (simp add: no_stray_ending_def)
  next
    fix body c r2
    assume s': "s = body @ c # r2" and all: "list_all (\<lambda>c. c \<notin> set endings) body"
      and c: "c \<in> set endings" and ch: "chunk = body @ c # takeWhile isWhiteSpace r2"
    from ap s' endings_apart_skip [OF all] have "endings_apart endings False (c # r2)" by simp
    with c have "endings_apart endings True r2" by simp
    from no_stray_after_ws [OF this] have "no_stray_ending endings (dropWhile isWhiteSpace r2)" .
    moreover have "drop (length chunk) s = dropWhile isWhiteSpace r2"
      using s' ch by (simp add: dropWhile_eq_drop)
    ultimately show ?thesis by simp
  qed
qed

lemma exec_loop_no_stray:
  assumes ns: "no_stray_ending endings tx"
  shows "concat (map sentence_text (fst (exec_loop endings tx [] 0))) = take (snd (exec_loop endings tx [] 0)) tx \<and>
         (snd (exec_loop endings tx [] 0) = 0 \<or> snd (exec_loop endings tx [] 0) = length tx \<or>
          (snd (exec_loop endings tx [] 0) < length tx \<and> \<not> isWhiteSpace (tx ! snd (exec_loop endings tx [] 0))))"
proof -
  define I where "I = (\<lambda>(acc :: sentence list) k. concat (map sentence_text acc) = take k tx \<and> k \<le> length tx \<and>
     no_stray_ending endings (drop k tx) \<and>
     (k = 0 \<or> k = length tx \<or> \<not> isWhiteSpace (tx ! k)))"
  have "I (fst (exec_loop endings tx [] 0)) (snd (exec_loop endings tx [] 0)) \<and>
        regex_exec endings tx (snd (exec_loop endings tx [] 0)) = None"
  proof (rule exec_loop_invariant [where I = I])
    show "I [] 0" using ns by (simp add: I_def)
  next
    fix acc i start chunk
    assume inv: "I acc i" and r: "regex_exec endings tx i = Some (start, chunk)"
    from inv have cat: "concat (map sentence_text acc) = take i tx"
      and nsi: "no_stray_ending endings (drop i tx)" by (simp_all add: I_def)
    have i: "i < length tx" using r by (cases "length tx \<le> i") (simp_all add: regex_exec.simps)
    then have d: "drop i tx = tx ! i # drop (Suc i) tx" by (simp add: Cons_nth_drop_Suc)
    have "tx ! i \<notin> set endings"
    proof
      assume "tx ! i \<in> set endings"
      with nsi d have "list_all (\<lambda>c. c \<in> set endings) (drop i tx)"
        by (simp add: no_stray_ending_def)
      from regex_exec_all_endings [OF this] r show False by simp
    qed
    with d have "match_here endings (drop i tx) \<noteq> None" by (simp add: match_here_None)
    then obtain m where m: "match_here endings (drop i tx) = Some m" by auto
    from regex_exec_here [OF i m] r have eq: "start = i" "chunk = m" by simp_all
    from match_here_Some [OF m] i have len: "i + length m \<le> length tx" by auto
    from match_here_prefix [OF m] have "take (i + length m) tx = take i tx @ m"
      by (simp add: take_add)
    moreover from no_stray_step [OF nsi m] have "no_stray_ending endings (drop (i + length m) tx)"
      by (simp add: add.commute)
    moreover from match_here_rest [OF m]
    have "i + length m = length tx \<or> \<not> isWhiteSpace (tx ! (i + length m))"
      using len by (cases "i + length m < length tx") (auto simp: hd_drop_conv_nth add.commute)
    ultimately show "I (acc @ [mk_sentence start (start + length chunk) chunk]) (start + length chunk)"
      using cat len eq by (simp add: I_def)
  qed
  then show ?thesis by (auto simp: I_def)
qed

lemma roundtrip_no_stray:
  assumes t: "trim tx \<noteq> []" and ns: "no_stray_ending endings tx"
  shows "concat (map sentence_text (buildSentenceMap endings tx)) = tx"
proof -
  obtain ss li where e: "exec_loop endings tx [] 0 = (ss, li)" by (cases "exec_loop endings tx [] 0")
  from exec_loop_ordered [of endings tx] e
  have li: "li = last_end 0 ss" and le: "li \<le> length tx" by simp_all
  from exec_loop_no_stray [OF ns] e
  have cat: "concat (map sentence_text ss) = take li tx"
    and nx: "li = 0 \<or> li = length tx \<or> (li < length tx \<and> \<not> isWhiteSpace (tx ! li))" by simp_all
  have ne: "tx \<noteq> []" using t trim_nonempty by blast
  show ?thesis
  proof (cases "li < length tx")
    case True
    have "trim (drop li tx) \<noteq> []"
    proof (cases "li = 0")
      case True
      with t show ?thesis by simp
    next
      case False
      with nx True have "\<not> isWhiteSpace (hd (drop li tx))" by (simp add: hd_drop_conv_nth)
      moreover have "drop li tx \<noteq> []" using True by simp
      ultimately show ?thesis by (rule trim_hd [rotated])
    qed
    with True t e cat show ?thesis by (simp add: buildSentenceMap_def)
  next
    case False
    with le have eq: "li = length tx" by simp
    with li ne have "ss \<noteq> []" by (auto simp: last_end_def)
    with False t e cat eq show ?thesis by (simp add: buildSentenceMap_def)
  qed
qed

text \<open>On a text with no stray ending the sentences leave no gap, and every caret has its sentence.\<close>

lemma contiguous_from_ordered: "contiguous_from lo ss \<Longrightarrow> ordered_from lo ss"
  by (induction ss arbitrary: lo) auto

lemma contiguous_from_snoc:
  "contiguous_from lo (ss @ [s]) \<longleftrightarrow>
     contiguous_from lo ss \<and> sentence_start s = last_end lo ss \<and> sentence_start s < sentence_end s"
  by (induction ss arbitrary: lo) (auto simp: last_end_def)

lemma contiguous_from_covers:
  "contiguous_from lo ss \<Longrightarrow> lo \<le> c \<Longrightarrow> c < last_end lo ss \<Longrightarrow>
     \<exists>j < length ss. sentence_start (ss ! j) \<le> c \<and> c < sentence_end (ss ! j)"
proof (induction ss arbitrary: lo)
  case Nil
  then show ?case by (simp add: last_end_def)
next
  case (Cons s rest)
  show ?case
  proof (cases "c < sentence_end s")
    case True
    with Cons.prems have "sentence_start ((s # rest) ! 0) \<le> c \<and> c < sentence_end ((s # rest) ! 0)"
      by simp
    then show ?thesis by blast
  next
    case False
    then have ne: "rest \<noteq> []" using Cons.prems by (auto simp: last_end_def)
    have "contiguous_from (sentence_end s) rest" using Cons.prems by simp
    moreover have "sentence_end s \<le> c" using False by simp
    moreover have "c < last_end (sentence_end s) rest" using Cons.prems ne by (simp add: last_end_def)
    ultimately obtain j where "j < length rest" "sentence_start (rest ! j) \<le> c"
      "c < sentence_end (rest ! j)" using Cons.IH by blast
    then have "Suc j < length (s # rest) \<and> sentence_start ((s # rest) ! Suc j) \<le> c \<and>
      c < sentence_end ((s # rest) ! Suc j)" by simp
    then show ?thesis by blast
  qed
qed

lemma find_loop_bounds:
  "find_loop ss k c = Some i \<Longrightarrow> k \<le> i \<and> i < k + length ss"
proof (induction ss arbitrary: k)
  case Nil
  then show ?case by simp
next
  case (Cons s rest)
  show ?case
  proof (cases "sentence_start s \<le> c \<and> c < sentence_end s")
    case True
    with Cons.prems show ?thesis by simp
  next
    case False
    show ?thesis
    proof (cases "c = sentence_end s \<and> rest \<noteq> []")
      case True
      with False Cons.prems show ?thesis by (cases rest) auto
    next
      case b: False
      with False Cons.prems have "find_loop rest (k + 1) c = Some i" by auto
      from Cons.IH [OF this] show ?thesis by simp
    qed
  qed
qed

lemma findActiveSentenceIndex_range:
  "- 1 \<le> findActiveSentenceIndex ss c \<and> findActiveSentenceIndex ss c < int (length ss)"
proof (cases "find_loop ss 0 c")
  case None
  then show ?thesis by (simp add: findActiveSentenceIndex_def)
next
  case (Some i)
  from find_loop_bounds [OF Some] Some show ?thesis by (simp add: findActiveSentenceIndex_def)
qed

lemma findActiveSentenceIndex_contiguous:
  assumes c: "contiguous_from 0 ss" and ne: "ss \<noteq> []"
  shows "0 \<le> findActiveSentenceIndex ss caret \<and> findActiveSentenceIndex ss caret < int (length ss)"
proof -
  have o: "ordered_sentences ss"
    using contiguous_from_ordered [OF c] by (simp add: ordered_sentences_def)
  have "0 \<le> findActiveSentenceIndex ss caret"
  proof (cases "sentence_start (last ss) \<le> caret")
    case True
    from find_last [OF o ne True] ne show ?thesis by (cases ss) simp_all
  next
    case False
    have "sentence_start (last ss) < sentence_end (last ss)"
      using ordered_from_start [of 0 ss "length ss - 1"] o ne
      by (simp add: ordered_sentences_def last_conv_nth)
    with False ne have "caret < last_end 0 ss" by (simp add: last_end_def)
    from contiguous_from_covers [OF c _ this] obtain j where "j < length ss"
      "sentence_start (ss ! j) \<le> caret" "caret < sentence_end (ss ! j)" by auto
    from find_inside [OF o this] show ?thesis by simp
  qed
  with findActiveSentenceIndex_range [of ss caret] show ?thesis by simp
qed

lemma exec_loop_contiguous:
  assumes ns: "no_stray_ending endings tx"
  shows "contiguous_from 0 (fst (exec_loop endings tx [] 0))"
proof -
  define I where "I = (\<lambda>(acc :: sentence list) k. contiguous_from 0 acc \<and> k = last_end 0 acc \<and>
     k \<le> length tx \<and> no_stray_ending endings (drop k tx))"
  have "I (fst (exec_loop endings tx [] 0)) (snd (exec_loop endings tx [] 0)) \<and>
        regex_exec endings tx (snd (exec_loop endings tx [] 0)) = None"
  proof (rule exec_loop_invariant [where I = I])
    show "I [] 0" using ns by (simp add: I_def last_end_def)
  next
    fix acc i start chunk
    assume inv: "I acc i" and r: "regex_exec endings tx i = Some (start, chunk)"
    from inv have nsi: "no_stray_ending endings (drop i tx)" by (auto simp: I_def)
    have i: "i < length tx" using r by (cases "length tx \<le> i") (simp_all add: regex_exec.simps)
    then have d: "drop i tx = tx ! i # drop (Suc i) tx" by (simp add: Cons_nth_drop_Suc)
    have "tx ! i \<notin> set endings"
    proof
      assume "tx ! i \<in> set endings"
      with nsi d have "list_all (\<lambda>c. c \<in> set endings) (drop i tx)"
        by (simp add: no_stray_ending_def)
      from regex_exec_all_endings [OF this] r show False by simp
    qed
    with d have "match_here endings (drop i tx) \<noteq> None" by (simp add: match_here_None)
    then obtain m where m: "match_here endings (drop i tx) = Some m" by auto
    from regex_exec_here [OF i m] r have eq: "start = i" "chunk = m" by simp_all
    from match_here_Some [OF m] i have len: "i + length m \<le> length tx" and mne: "m \<noteq> []" by auto
    from no_stray_step [OF nsi m] have "no_stray_ending endings (drop (i + length m) tx)"
      by (simp add: add.commute)
    with inv len mne eq
    show "I (acc @ [mk_sentence start (start + length chunk) chunk]) (start + length chunk)"
      by (simp add: I_def contiguous_from_snoc last_end_def)
  qed
  then show ?thesis by (simp add: I_def)
qed

lemma buildSentenceMap_contiguous:
  assumes t: "trim tx \<noteq> []" and ns: "no_stray_ending endings tx"
  shows "buildSentenceMap endings tx \<noteq> [] \<and> contiguous_from 0 (buildSentenceMap endings tx) \<and>
         last_end 0 (buildSentenceMap endings tx) = length tx"
proof -
  obtain ss li where e: "exec_loop endings tx [] 0 = (ss, li)" by (cases "exec_loop endings tx [] 0")
  from exec_loop_ordered [of endings tx] e
  have li: "li = last_end 0 ss" and le: "li \<le> length tx" by simp_all
  from exec_loop_contiguous [OF ns] e have c: "contiguous_from 0 ss" by simp
  from exec_loop_no_stray [OF ns] e
  have nx: "li = 0 \<or> li = length tx \<or> (li < length tx \<and> \<not> isWhiteSpace (tx ! li))" by simp
  have ne: "tx \<noteq> []" using t trim_nonempty by blast
  show ?thesis
  proof (cases "li < length tx")
    case True
    have "trim (drop li tx) \<noteq> []"
    proof (cases "li = 0")
      case True
      with t show ?thesis by simp
    next
      case False
      with nx True have "\<not> isWhiteSpace (hd (drop li tx))" by (simp add: hd_drop_conv_nth)
      moreover have "drop li tx \<noteq> []" using True by simp
      ultimately show ?thesis by (rule trim_hd [rotated])
    qed
    with True t e c li show ?thesis
      by (simp add: buildSentenceMap_def contiguous_from_snoc last_end_def)
  next
    case False
    with le have eq: "li = length tx" by simp
    with li ne have "ss \<noteq> []" by (auto simp: last_end_def)
    with False t e c li eq show ?thesis by (simp add: buildSentenceMap_def)
  qed
qed

lemma findActiveSentenceIndex_total_no_stray:
  assumes "trim tx \<noteq> []" and "no_stray_ending endings tx"
  shows "0 \<le> findActiveSentenceIndex (buildSentenceMap endings tx) caret \<and>
         findActiveSentenceIndex (buildSentenceMap endings tx) caret
           < int (length (buildSentenceMap endings tx))"
  using buildSentenceMap_contiguous [OF assms] findActiveSentenceIndex_contiguous by blast

section \<open>The example run, step by step\<close>

lemma demo_id: "generateSentenceId 0 3 ''Hi.'' False = ''sentence-dd8ss4''"
  by (simp add: generateSentenceId_def simpleHash_def hash_step_def digit_char_def toStringRadix.simps)

lemma demo_tokens_raw: "buildSentenceMap default_sentenceEndings ''Hi.'' = [mk_sentence 0 3 ''Hi.'']"
  by (simp add: buildSentenceMap_def default_sentenceEndings_def trim_def isWhiteSpace_def
      match_here_def exec_loop.simps regex_exec.simps numeral_3_eq_3)

lemma demo_tokens: "buildSentenceMap default_sentenceEndings ''Hi.'' = [demo_sentence]"
  by (simp add: demo_tokens_raw mk_sentence_def demo_id demo_sentence_def)

lemma demo_html_plain: "length (innerHTML [TextNode ''Hi.'']) = 3"
  by (simp add: innerHTML_def escape_text_def)

lemma demo_html_rendered:
  "length (innerHTML [ElementNode r ''div'' [''paragraph''] []
     [ElementNode q ''span'' [''sentence'', ''sentence--active'']
        [(''data-sentence-id'', ''sentence-dd8ss4''), (''data-sentence-active'', ''true'')]
        [TextNode ''Hi.'']]]) = 142"
  by (simp add: innerHTML_def serialize_attr_def escape_attr_def escape_text_def void_elements_def)

lemma demo_digits: "toStringRadix 10 3 = ''3''" "toStringRadix 10 142 = ''142''"
  "toStringRadix 10 (Suc (Suc (Suc 0))) = ''3''"
  by (simp_all add: toStringRadix.simps digit_char_def)

lemma demo_constructed:
  "SentenceHighlighter (ContentEditable [] [TextNode ''Hi.'']) demo_options 1 = Inr demo_created"
  by (simp add: SentenceHighlighter_def init_def attachEvents_def addEventListener_def
      setTimeout_def classList_add_def demo_created_def demo_options_def default_options_def)

lemmas scan_defs = scanAndHighlight_def getPlainText_def getContentHash_def getCaretOffset_def
  hasValidHighlights_def rebuildHighlights_def rebuild_step_def clearAllHighlights_def
  updateActiveSentenceFromMap_def move_active_def mark_active_def unmark_active_def
  map_set_def map_get_def setAttribute_def removeAttribute_def classList_add_def classList_remove_def
  hasAttribute_def scrollCaretToCenter_def findActiveSentenceIndex_def

lemma demo_first_scan: "fire_timer 1 demo_created = (Return (), demo_rendered)"
  by (simp add: fire_timer_def scan_defs demo_created_def demo_rendered_def demo_options_def
      default_options_def demo_tokens demo_html_plain demo_digits demo_sentence_def demo_span_def
      trim_def isWhiteSpace_def Let_def)

lemma demo_second_scan: "update demo_rendered = (Return (), demo_updated)"
  by (simp add: update_def scan_defs demo_created_def demo_rendered_def demo_updated_def
      demo_options_def default_options_def demo_tokens demo_html_rendered demo_digits
      demo_sentence_def demo_span_def trim_def isWhiteSpace_def Let_def)

lemma demo_third_scan: "update demo_updated = (Return (), demo_updated_again)"
  by (simp add: update_def scan_defs demo_created_def demo_rendered_def demo_updated_def
      demo_updated_again_def
      demo_options_def default_options_def demo_tokens demo_html_rendered demo_digits
      demo_sentence_def demo_span_def trim_def isWhiteSpace_def Let_def)

lemma demo_destroy_created: "destroy demo_created = (Return (), demo_destroyed)"
  by (simp add: destroy_def clearTimeout_def removeEventListener_def classList_remove_def
      demo_created_def demo_destroyed_def demo_options_def default_options_def)

lemma demo_destroy_rendered:
  "destroy demo_rendered =
     (Throw (TypeError ''this.removeSentenceHighlight is not a function''),
      demo_rendered\<lparr>listeners := listeners demo_destroyed\<rparr>)"
  by (simp add: destroy_def clearTimeout_def removeEventListener_def classList_remove_def
      demo_created_def demo_rendered_def demo_destroyed_def class_methods_def)

lemma demo_keydown_after_destroy:
  "timers (dispatchEvent Editor ''keydown'' ''.'' demo_destroyed) =
     [(1, 10, ScanAndHighlight), (2, 20, ScanAndHighlight)]"
  by (simp add: dispatchEvent_def keydown_listener_def clearTimeout_def setTimeout_def
      demo_created_def demo_destroyed_def demo_options_def default_options_def
      default_sentenceEndings_def)

lemma demo_keyup_after_destroy:
  "timers (dispatchEvent Editor ''keyup'' ''ArrowLeft'' demo_destroyed) =
     [(1, 10, ScanAndHighlight), (2, 50, UpdateActiveSentence)]"
  by (simp add: dispatchEvent_def keyup_listener_def navigationKeys_def handleNavigation_def
      clearTimeout_def setTimeout_def
      demo_created_def demo_destroyed_def demo_options_def default_options_def)

lemma demo_focus_after_destroy:
  "timers (dispatchEvent Editor ''focus'' [] demo_destroyed) =
     [(1, 10, ScanAndHighlight), (2, 50, UpdateActiveSentence)]"
  by (simp add: dispatchEvent_def handleNavigation_def clearTimeout_def setTimeout_def
      demo_created_def demo_destroyed_def demo_options_def default_options_def)

lemma demo_scan_after_destroy:
  "fire_timer 1 demo_destroyed =
     (Return (),
      demo_rendered\<lparr>isInitialized := False, editor_classList := [],
                     listeners := listeners demo_destroyed\<rparr>)"
  by (simp add: fire_timer_def scan_defs demo_created_def demo_rendered_def demo_destroyed_def
      demo_options_def
      default_options_def demo_tokens demo_html_plain demo_digits demo_sentence_def demo_span_def
      trim_def isWhiteSpace_def Let_def)

lemma demo_scan_cleared:
  "scanAndHighlight demo_cleared =
     (Return (),
      demo_cleared\<lparr>sentenceMap := [], sentenceElements := [], activeSentenceId := None,
                    lastContentHash := Some []\<rparr>)"
  by (simp add: scan_defs demo_created_def demo_rendered_def demo_updated_def demo_cleared_def
      demo_options_def default_options_def trim_def Let_def)

lemma demo_scan_blanked:
  "scanAndHighlight demo_blanked =
     (Return (),
      demo_blanked\<lparr>sentenceMap := [], sentenceElements := [], activeSentenceId := None,
                    lastContentHash := Some [], editor_childNodes := [TextNode '' '']\<rparr>)"
  by (simp add: scan_defs demo_created_def demo_rendered_def demo_updated_def demo_blanked_def
      demo_options_def default_options_def trim_def isWhiteSpace_def Let_def
      splice_container_def node_ref_def node_children_def isElement_def)

section \<open>Properties of the methods\<close>

lemma destroy_throws:
  assumes "sentenceMap s \<noteq> []"
  shows "fst (destroy s) = Throw (TypeError ''this.removeSentenceHighlight is not a function'') \<and>
         sentenceMap (snd (destroy s)) = sentenceMap s \<and>
         sentenceElements (snd (destroy s)) = sentenceElements s \<and>
         editor_classList (snd (destroy s)) = editor_classList s \<and>
         isInitialized (snd (destroy s)) = isInitialized s"
  using assms
  by (simp add: destroy_def clearTimeout_def removeEventListener_def class_methods_def Let_def
      split: option.splits)

lemma destroy_returns:
  assumes "sentenceMap s = []"
  shows "fst (destroy s) = Return () \<and> sentenceMap (snd (destroy s)) = [] \<and>
         sentenceElements (snd (destroy s)) = [] \<and> activeSentenceId (snd (destroy s)) = None \<and>
         isInitialized (snd (destroy s)) = False"
  using assms
  by (simp add: destroy_def clearTimeout_def removeEventListener_def Let_def split: option.splits)

lemma destroy_listeners:
  "listeners (snd (destroy s)) =
     filter (\<lambda>e. e \<noteq> (Editor, ''input'', HandleInput) \<and> e \<noteq> (Editor, ''click'', HandleNavigation) \<and>
                 e \<noteq> (Document, ''selectionchange'', HandleCaretMove)) (listeners s)"
  by (auto simp: destroy_def clearTimeout_def removeEventListener_def Let_def
      split: option.splits intro: filter_cong)

lemma destroy_timers:
  "timers (snd (destroy s)) =
     (case updateTimer s of None \<Rightarrow> timers s | Some i \<Rightarrow> filter (\<lambda>t. fst t \<noteq> i) (timers s))"
  by (simp add: destroy_def clearTimeout_def removeEventListener_def Let_def split: option.splits)

lemma mark_active_frame [simp]:
  "opts (mark_active e s) = opts s" "callbacks (mark_active e s) = callbacks s"
  "sentenceMap (mark_active e s) = sentenceMap s" "activeSentenceId (mark_active e s) = activeSentenceId s"
  "sentenceElements (mark_active e s) = sentenceElements s"
  by (simp_all add: mark_active_def)

lemma unmark_active_frame [simp]:
  "opts (unmark_active e s) = opts s" "callbacks (unmark_active e s) = callbacks s"
  "sentenceMap (unmark_active e s) = sentenceMap s" "activeSentenceId (unmark_active e s) = activeSentenceId s"
  "sentenceElements (unmark_active e s) = sentenceElements s"
  by (simp_all add: unmark_active_def)

lemma incremental_update_always_calls:
  assumes "0 \<le> activeIndex" "activeIndex < int (length sentences)" "onActiveSentenceChange (opts s)"
  shows "callbacks (updateActiveSentenceFromMap sentences activeIndex s) =
           callbacks s @ [ActiveSentenceChange activeIndex
              (map_get (sentenceMap s) (sentence_id (sentences ! nat activeIndex)))]"
  using assms
  by (simp add: updateActiveSentenceFromMap_def move_active_def Let_def split: option.splits)

lemma incremental_update_always_marks:
  assumes "0 \<le> activeIndex" "activeIndex < int (length sentences)"
    and "map_get (sentenceElements s) (sentence_id (sentences ! nat activeIndex)) = Some e"
    and "activeSentenceId s = Some (sentence_id (sentences ! nat activeIndex))"
    and "sentence_id (sentences ! nat activeIndex) \<noteq> []"
  shows "region_mutations (updateActiveSentenceFromMap sentences activeIndex s) =
           region_mutations s @
             [ClassListRemove e (activeSentenceClass (opts s)),
              RemoveAttribute e (activeSentenceDataAttribute (opts s)),
              ClassListAdd e (activeSentenceClass (opts s)),
              SetAttribute e (activeSentenceDataAttribute (opts s)) ''true'']"
  using assms
  by (simp add: updateActiveSentenceFromMap_def move_active_def Let_def mark_active_def
      unmark_active_def)

lemma navigation_update_short_circuit:
  assumes "activeSentenceId s =
     Some (sentence_id (map snd (sentenceMap s) !
        nat (findActiveSentenceIndex (map snd (sentenceMap s)) (caretOffset s))))"
  shows "updateActiveSentence s = s"
  using assms by (simp add: updateActiveSentence_def getCaretOffset_def Let_def)

lemma clearAllHighlights_frame:
  "callbacks (snd (clearAllHighlights s)) = callbacks s \<and> opts (snd (clearAllHighlights s)) = opts s"
  by (simp add: clearAllHighlights_def Let_def split: option.splits node.splits)

lemma blank_scan_calls_nothing:
  assumes "trim (getPlainText s) = []"
  shows "callbacks (snd (scanAndHighlight s)) = callbacks s"
proof -
  obtain r s1 where c: "clearAllHighlights s = (r, s1)" by (cases "clearAllHighlights s")
  with clearAllHighlights_frame [of s] have "callbacks s1 = callbacks s" by simp
  with assms c show ?thesis
    by (cases r) (simp_all add: scanAndHighlight_def Let_def)
qed

lemma blank_scan_clears:
  assumes "trim (getPlainText s) = []" and "fst (scanAndHighlight s) = Return ()"
  shows "sentenceMap (snd (scanAndHighlight s)) = [] \<and>
         sentenceElements (snd (scanAndHighlight s)) = [] \<and>
         activeSentenceId (snd (scanAndHighlight s)) = None"
proof -
  obtain r s1 where c: "clearAllHighlights s = (r, s1)" by (cases "clearAllHighlights s")
  with assms show ?thesis
    by (cases r) (simp_all add: scanAndHighlight_def Let_def)
qed

section \<open>The claims about the tokenizer and the active-sentence search\<close>

text \<open>
  C1 (as amended).  The claim as stated, that for every non-empty text the concatenation of the
  sentence texts equals the text, fails on a text of white space only: \<^verbatim>\<open>buildSentenceMap\<close>
  returns no sentence for it, by the guard \<^verbatim>\<open>if (!text.trim()) return []\<close>.  What holds: for
  every set of sentence endings that stand for themselves when escaped (the default endings
  among them), and every text that is not empty or white space only and that has no stray
  ending (an ending character that starts the text, or follows another ending with only white
  space between them, and has a character that is not an ending somewhere after it), the
  concatenation of the texts of the sentences that \<^verbatim>\<open>buildSentenceMap\<close> produces equals the
  text.
\<close>

theorem buildSentenceMap_roundtrip:
  "list_all stands_for_itself endings \<Longrightarrow> trim tx \<noteq> [] \<Longrightarrow> no_stray_ending endings tx \<Longrightarrow>
     concat (map sentence_text (buildSentenceMap endings tx)) = tx"
  by (rule roundtrip_no_stray)

theorem buildSentenceMap_roundtrip_witness:
  "list_all stands_for_itself default_sentenceEndings \<and>
   trim ''Hi. Bye...'' \<noteq> [] \<and> no_stray_ending default_sentenceEndings ''Hi. Bye...'' \<and>
   concat (map sentence_text (buildSentenceMap default_sentenceEndings ''Hi. Bye...'')) = ''Hi. Bye...''"
proof -
  have e: "list_all stands_for_itself default_sentenceEndings"
    by (simp add: default_sentenceEndings_def stands_for_itself_def)
  have a: "trim ''Hi. Bye...'' \<noteq> []" by (simp add: trim_def isWhiteSpace_def)
  have b: "no_stray_ending default_sentenceEndings ''Hi. Bye...''"
    by (simp add: no_stray_ending_def default_sentenceEndings_def isWhiteSpace_def)
  from buildSentenceMap_roundtrip [OF e a b] e a b show ?thesis by simp
qed

text \<open>
  The counterexample to C1 as stated: the text of one space is not empty, and the sentences
  produced for it (none) do not concatenate to it.
\<close>

theorem buildSentenceMap_roundtrip_counterexample:
  "'' '' \<noteq> [] \<and>
   concat (map sentence_text (buildSentenceMap default_sentenceEndings '' '')) \<noteq> '' ''"
  by (simp add: buildSentenceMap_def trim_def isWhiteSpace_def)

text \<open>
  C2.  The claim: for every text, each sentence ends where the next one starts.  The code at
  the text \<^verbatim>\<open>"Hi?! Ok"\<close>: the pattern cannot match at the \<^verbatim>\<open>!\<close> that follows the first
  sentence, the search moves on to the next character that is not an ending, and the two
  sentences produced are \<open>[0, 3)\<close> and \<open>[4, 7)\<close>: the first ends at 3, the second starts at 4,
  and the \<^verbatim>\<open>!\<close> belongs to neither.
\<close>

theorem buildSentenceMap_gap:
  "map (\<lambda>s. (sentence_text s, sentence_start s, sentence_end s))
     (buildSentenceMap default_sentenceEndings ''Hi?! Ok'') = [(''Hi?'', 0, 3), ('' Ok'', 4, 7)]"
  by (simp add: buildSentenceMap_def default_sentenceEndings_def trim_def isWhiteSpace_def
      match_here_def exec_loop.simps regex_exec.simps)

text \<open>
  C3.  The claim: on the sentences of a text and a caret offset within the text,
  \<^verbatim>\<open>findActiveSentenceIndex\<close> never returns \<^verbatim>\<open>-1\<close>.  The code at the text
  \<^verbatim>\<open>"Wait... what"\<close>: the sentences are \<open>[0, 5)\<close> and \<open>[7, 12)\<close>, and the caret offset 6,
  between the second and the third dot, is in neither and before the start of the last, so the
  result is \<^verbatim>\<open>-1\<close>.
\<close>

theorem findActiveSentenceIndex_gap:
  "map (\<lambda>s. (sentence_start s, sentence_end s))
     (buildSentenceMap default_sentenceEndings ''Wait... what'') = [(0, 5), (7, 12)] \<and>
   6 \<le> length ''Wait... what'' \<and>
   findActiveSentenceIndex (buildSentenceMap default_sentenceEndings ''Wait... what'') 6 = - 1"
  by (simp add: buildSentenceMap_def default_sentenceEndings_def trim_def isWhiteSpace_def
      match_here_def exec_loop.simps regex_exec.simps findActiveSentenceIndex_def)

text \<open>
  C4.  On every sentence sequence whose spans are non-empty, ordered and do not overlap
  (\<open>ordered_sentences\<close>, which every sequence that \<^verbatim>\<open>buildSentenceMap\<close> produces satisfies, the
  fourth part of the theorem): a caret inside the half-open span of a sentence selects that
  sentence; a caret at the end of a sentence that has a successor selects the successor; a
  caret at or past the start of the last sentence selects the last sentence.  On the sentences
  of \<^verbatim>\<open>"Hello world. How are you?"\<close> the caret offset 13 selects index 1.
\<close>

theorem findActiveSentenceIndex_selects:
  "(\<forall>ss c j. ordered_sentences ss \<and> j < length ss \<and>
       sentence_start (ss ! j) \<le> c \<and> c < sentence_end (ss ! j) \<longrightarrow>
       findActiveSentenceIndex ss c = int j) \<and>
   (\<forall>ss c j. ordered_sentences ss \<and> j + 1 < length ss \<and> c = sentence_end (ss ! j) \<longrightarrow>
       findActiveSentenceIndex ss c = int (j + 1)) \<and>
   (\<forall>ss c. ordered_sentences ss \<and> ss \<noteq> [] \<and> sentence_start (last ss) \<le> c \<longrightarrow>
       findActiveSentenceIndex ss c = int (length ss) - 1) \<and>
   (\<forall>endings tx. ordered_sentences (buildSentenceMap endings tx)) \<and>
   findActiveSentenceIndex
     (buildSentenceMap default_sentenceEndings ''Hello world. How are you?'') 13 = 1"
proof (intro conjI allI impI)
  fix ss c j
  assume "ordered_sentences ss \<and> j < length ss \<and>
       sentence_start (ss ! j) \<le> c \<and> c < sentence_end (ss ! j)"
  then show "findActiveSentenceIndex ss c = int j" using find_inside by blast
next
  fix ss c j
  assume "ordered_sentences ss \<and> j + 1 < length ss \<and> c = sentence_end (ss ! j)"
  then show "findActiveSentenceIndex ss c = int (j + 1)" using find_at_end by blast
next
  fix ss c
  assume "ordered_sentences ss \<and> ss \<noteq> [] \<and> sentence_start (last ss) \<le> c"
  then show "findActiveSentenceIndex ss c = int (length ss) - 1" using find_last by blast
next
  fix endings tx
  show "ordered_sentences (buildSentenceMap endings tx)"
    using buildSentenceMap_ordered by blast
next
  show "findActiveSentenceIndex
     (buildSentenceMap default_sentenceEndings ''Hello world. How are you?'') 13 = 1"
    by (simp add: buildSentenceMap_def default_sentenceEndings_def trim_def isWhiteSpace_def
      match_here_def exec_loop.simps regex_exec.simps findActiveSentenceIndex_def)
qed

theorem findActiveSentenceIndex_selects_witness:
  "ordered_sentences [mk_sentence 0 13 ''Hello world. '', mk_sentence 13 25 ''How are you?''] \<and>
   findActiveSentenceIndex [mk_sentence 0 13 ''Hello world. '', mk_sentence 13 25 ''How are you?''] 5 = 0 \<and>
   findActiveSentenceIndex [mk_sentence 0 13 ''Hello world. '', mk_sentence 13 25 ''How are you?''] 13 = 1 \<and>
   findActiveSentenceIndex [mk_sentence 0 13 ''Hello world. '', mk_sentence 13 25 ''How are you?''] 25 = 1 \<and>
   findActiveSentenceIndex [mk_sentence 0 13 ''Hello world. '', mk_sentence 13 25 ''How are you?''] 40 = 1"
proof -
  let ?ss = "[mk_sentence 0 13 ''Hello world. '', mk_sentence 13 25 ''How are you?'']"
  have o: "ordered_sentences ?ss" by (simp add: ordered_sentences_def)
  note inside = findActiveSentenceIndex_selects [THEN conjunct1, rule_format]
  note at_end = findActiveSentenceIndex_selects [THEN conjunct2, THEN conjunct1, rule_format]
  note at_last = findActiveSentenceIndex_selects [THEN conjunct2, THEN conjunct2, THEN conjunct1, rule_format]
  have a: "findActiveSentenceIndex ?ss 5 = 0" using inside [of ?ss 0 5] o by simp
  have b: "findActiveSentenceIndex ?ss 13 = 1" using at_end [of ?ss 0 13] o by simp
  have c: "findActiveSentenceIndex ?ss 25 = 1" using at_last [of ?ss 25] o by simp
  have d: "findActiveSentenceIndex ?ss 40 = 1" using at_last [of ?ss 40] o by simp
  from o a b c d show ?thesis by simp
qed

text \<open>
  C9.  With the default endings the text \<^verbatim>\<open>"Hello world. How are you?"\<close> gives exactly two
  sentences: \<^verbatim>\<open>"Hello world. "\<close> from 0 to 13 and \<^verbatim>\<open>"How are you?"\<close> from 13 to 25, neither a
  heading.
\<close>

theorem buildSentenceMap_hello:
  "map (\<lambda>s. (sentence_text s, sentence_start s, sentence_end s, isHeading s))
     (buildSentenceMap default_sentenceEndings ''Hello world. How are you?'') =
     [(''Hello world. '', 0, 13, False), (''How are you?'', 13, 25, False)]"
  by (simp add: buildSentenceMap_def default_sentenceEndings_def trim_def isWhiteSpace_def
      match_here_def exec_loop.simps regex_exec.simps)

section \<open>The claims about the instance\<close>

text \<open>
  C5.  The claim: after \<^verbatim>\<open>destroy()\<close> no scheduled update fires, and the listeners for
  \<^verbatim>\<open>input\<close>, \<^verbatim>\<open>keydown\<close>, \<^verbatim>\<open>keyup\<close>, \<^verbatim>\<open>click\<close>, \<^verbatim>\<open>focus\<close> and \<^verbatim>\<open>selectionchange\<close> are all detached.
  The code on the instance just constructed on an editor holding \<^verbatim>\<open>Hi.\<close>: \<^verbatim>\<open>destroy()\<close> returns
  and leaves the three arrow-function listeners (\<^verbatim>\<open>keydown\<close>, \<^verbatim>\<open>keyup\<close>, \<^verbatim>\<open>focus\<close>) registered and
  the timeout of the first scan pending, since \<^verbatim>\<open>init\<close> never stored it in \<^verbatim>\<open>updateTimer\<close>.  After
  that a \<^verbatim>\<open>keydown\<close> of \<^verbatim>\<open>.\<close> schedules a scan, a \<^verbatim>\<open>keyup\<close> of \<^verbatim>\<open>ArrowLeft\<close> and a \<^verbatim>\<open>focus\<close> each
  schedule an active-sentence update, and the pending timeout runs the scan, which renders the
  sentence and calls \<^verbatim>\<open>onSentenceChange\<close>.
\<close>

theorem destroy_leaves_listeners_and_timer:
  "SentenceHighlighter (ContentEditable [] [TextNode ''Hi.'']) demo_options 1 = Inr demo_created \<and>
   destroy demo_created = (Return (), demo_destroyed) \<and>
   listeners demo_destroyed =
     [(Editor, ''keydown'', KeydownArrow), (Editor, ''keyup'', KeyupArrow),
      (Editor, ''focus'', FocusArrow)] \<and>
   timers demo_destroyed = [(1, 10, ScanAndHighlight)] \<and>
   timers (dispatchEvent Editor ''keydown'' ''.'' demo_destroyed) =
     [(1, 10, ScanAndHighlight), (2, 20, ScanAndHighlight)] \<and>
   timers (dispatchEvent Editor ''keyup'' ''ArrowLeft'' demo_destroyed) =
     [(1, 10, ScanAndHighlight), (2, 50, UpdateActiveSentence)] \<and>
   timers (dispatchEvent Editor ''focus'' [] demo_destroyed) =
     [(1, 10, ScanAndHighlight), (2, 50, UpdateActiveSentence)] \<and>
   fire_timer 1 demo_destroyed =
     (Return (),
      demo_rendered\<lparr>isInitialized := False, editor_classList := [],
                     listeners := listeners demo_destroyed\<rparr>) \<and>
   callbacks demo_rendered = [SentenceChange [demo_sentence]]"
  by (intro conjI demo_constructed demo_destroy_created demo_keydown_after_destroy
      demo_keyup_after_destroy demo_focus_after_destroy demo_scan_after_destroy)
    (simp_all add: demo_destroyed_def demo_created_def demo_rendered_def)

text \<open>
  C6.  The claim: \<^verbatim>\<open>destroy()\<close> completes without an error in every state, also with a
  non-empty sentence collection, and clears the regions and the internal state.  The code on
  the instance after its first scan of \<^verbatim>\<open>Hi.\<close>, whose sentence collection holds one sentence:
  \<^verbatim>\<open>destroy()\<close> raises a \<^verbatim>\<open>TypeError\<close> at \<^verbatim>\<open>this.removeSentenceHighlight(id)\<close>, after it has removed
  three listeners and before it clears anything: the sentence collection, the rendered
  regions, the active reference, the classes of the editor and \<^verbatim>\<open>isInitialized\<close> are as before.
\<close>

theorem destroy_throws_on_rendered:
  "fire_timer 1 demo_created = (Return (), demo_rendered) \<and>
   sentenceMap demo_rendered = [(''sentence-dd8ss4'', demo_sentence)] \<and>
   destroy demo_rendered =
     (Throw (TypeError ''this.removeSentenceHighlight is not a function''),
      demo_rendered\<lparr>listeners := listeners demo_destroyed\<rparr>)"
  by (intro conjI demo_first_scan demo_destroy_rendered) (simp_all add: demo_rendered_def)

text \<open>
  C7.  The claim: on the incremental branch of a scan, as on the navigation path, nothing is
  changed and no observer is called when the newly resolved active sentence is the one already
  active.  The code on the instance for \<^verbatim>\<open>Hi.\<close> with both observers installed: the first scan
  and the first \<^verbatim>\<open>update()\<close> rebuild the regions; the second \<^verbatim>\<open>update()\<close> takes the incremental
  branch, the active identifier stays \<^verbatim>\<open>sentence-dd8ss4\<close>, and still the class and the
  attribute of the region are removed and set again and \<^verbatim>\<open>onActiveSentenceChange\<close> is called.
\<close>

theorem incremental_scan_repeats_activation:
  "fire_timer 1 demo_created = (Return (), demo_rendered) \<and>
   update demo_rendered = (Return (), demo_updated) \<and>
   update demo_updated = (Return (), demo_updated_again) \<and>
   activeSentenceId demo_updated = Some ''sentence-dd8ss4'' \<and>
   activeSentenceId demo_updated_again = Some ''sentence-dd8ss4'' \<and>
   callbacks demo_updated_again =
     callbacks demo_updated @
       [ActiveSentenceChange 0 (Some demo_sentence), SentenceChange [demo_sentence]] \<and>
   region_mutations demo_updated = [] \<and>
   region_mutations demo_updated_again =
     [ClassListRemove 4 ''sentence--active'', RemoveAttribute 4 ''data-sentence-active'',
      ClassListAdd 4 ''sentence--active'', SetAttribute 4 ''data-sentence-active'' ''true'']"
  by (intro conjI demo_first_scan demo_second_scan demo_third_scan)
    (simp_all add: demo_updated_again_def demo_updated_def demo_rendered_def demo_created_def)

text \<open>
  C8.  The claim: a scan of empty or blank text empties the sentence collection, resets the
  active reference, clears the regions and calls \<^verbatim>\<open>onSentenceChange\<close> once with the empty list.
  The code on the rendered instance for \<^verbatim>\<open>Hi.\<close>, with \<^verbatim>\<open>onSentenceChange\<close> installed, after the
  author has deleted the text (the editor is empty, or one space is left in the sentence
  element): the scan empties the collection and the region map, resets the active reference and
  unwraps the elements, and returns before the call of the observer; the trace of calls is as
  before the scan.
\<close>

theorem blank_scan_makes_no_call:
  "onSentenceChange (opts demo_cleared) \<and> onSentenceChange (opts demo_blanked) \<and>
   getPlainText demo_cleared = [] \<and> getPlainText demo_blanked = '' '' \<and>
   getSentences demo_cleared = [demo_sentence] \<and> getSentences demo_blanked = [demo_sentence] \<and>
   scanAndHighlight demo_cleared =
     (Return (),
      demo_cleared\<lparr>sentenceMap := [], sentenceElements := [], activeSentenceId := None,
                    lastContentHash := Some []\<rparr>) \<and>
   scanAndHighlight demo_blanked =
     (Return (),
      demo_blanked\<lparr>sentenceMap := [], sentenceElements := [], activeSentenceId := None,
                    lastContentHash := Some [], editor_childNodes := [TextNode '' '']\<rparr>) \<and>
   callbacks (snd (scanAndHighlight demo_cleared)) = callbacks demo_cleared \<and>
   callbacks (snd (scanAndHighlight demo_blanked)) = callbacks demo_blanked"
proof (intro conjI demo_scan_cleared demo_scan_blanked)
  show "callbacks (snd (scanAndHighlight demo_cleared)) = callbacks demo_cleared"
    by (simp add: demo_scan_cleared)
  show "callbacks (snd (scanAndHighlight demo_blanked)) = callbacks demo_blanked"
    by (simp add: demo_scan_blanked)
qed (simp_all add: demo_cleared_def demo_blanked_def demo_updated_def demo_rendered_def
      demo_created_def demo_options_def getPlainText_def getSentences_def)

text \<open>
  C10.  The claim: \<^verbatim>\<open>toggleFocusMode()\<close> returns the new focus mode as a boolean.  The code, in
  every state: the call flips the focus mode and evaluates to \<^verbatim>\<open>undefined\<close>.
\<close>

theorem toggleFocusMode_returns_undefined:
  "fst (toggleFocusMode s) = Undefined \<and>
   focusModeEnabled (snd (toggleFocusMode s)) = (\<not> focusModeEnabled s)"
  by (simp add: toggleFocusMode_def setFocusMode_def Let_def)

end
